theory Spec2Isabelle
  imports Complex_Main "HOL-Library.FSet"
begin

section \<open>Detection service: configuration (config.py)\<close>

text \<open>
  The module-level constants of \<^verbatim>\<open>config.py\<close> that are read from the process
  environment are collected in one record, so that every theorem below holds for every
  configuration. The class identifiers are fixed in the source.
\<close>

record config =
  BACKEND_URL :: string
  BACKEND_API_KEY :: string
  VEHICLE_ABSENCE_TIMEOUT :: int
  MIN_BAG_COUNT_TO_REPORT :: int
  VIDEO_DIR :: string

definition CLASS_POTATO_BAG :: int where
  "CLASS_POTATO_BAG = 0"

definition CLASS_BAG_CLUSTER :: int where
  "CLASS_BAG_CLUSTER = 1"

definition CLASS_VEHICLE :: int where
  "CLASS_VEHICLE = 2"

section \<open>Detections, frames and the environment of one tick\<close>

text \<open>
  A detection is the dictionary built by \<^verbatim>\<open>Detector.detect\<close>. Python floats are
  modelled as reals: clock readings, confidences and box coordinates are exact numbers
  here; the operations on them are introduced below.
\<close>

record detection =
  class_id :: int
  class_name :: string
  confidence :: real
  bbox :: "real list"
  bbox_norm :: "real list"

text \<open>A frame is an image array; only its shape is read by the counter.\<close>

record frame =
  frame_height :: nat
  frame_width :: nat
  frame_data :: nat

text \<open>
  One call of \<^verbatim>\<open>process_frame\<close> receives the detection list and the optional frame,
  and reads its environment: \<^verbatim>\<open>time.time()\<close> at the head of the call
  (\<open>env_now\<close>), any later clock reading of the same call (\<open>env_clock\<close>, used by the
  default factories of a new session and by \<^verbatim>\<open>duration_seconds\<close> of a session that
  has not ended), the formatted \<^verbatim>\<open>datetime.now()\<close>, whether a new video writer
  opens, and the size of the video file on disk if it exists.
\<close>

record tick =
  detections :: "detection list"
  tick_frame :: "frame option"
  env_now :: real
  env_clock :: real
  env_timestamp :: string
  env_writer_opens :: bool
  env_file_size :: "nat option"

section \<open>Library functions used by the counter\<close>

text \<open>
  A float is the real number it denotes. The arithmetic of floats rounds, so it is not
  the arithmetic of the reals: the operations the code applies to floats are a parameter
  of the model, and every theorem holds for every choice of them, the IEEE double
  operations of the interpreter included. \<open>fadd\<close>, \<open>fsub\<close> and \<open>fdiv\<close> are
  \<^verbatim>\<open>+\<close>, \<^verbatim>\<open>-\<close> and \<^verbatim>\<open>/\<close> on floats, and \<open>fround x n\<close> is
  \<^verbatim>\<open>round(x, n)\<close>. Comparisons of floats with each other and with integers are
  exact in Python and are the comparisons of the reals here.
\<close>

record float_ops =
  fadd :: "real \<Rightarrow> real \<Rightarrow> real"
  fsub :: "real \<Rightarrow> real \<Rightarrow> real"
  fdiv :: "real \<Rightarrow> real \<Rightarrow> real"
  fround :: "real \<Rightarrow> nat \<Rightarrow> real"

text \<open>\<^verbatim>\<open>os.path.join(a, b)\<close> on a POSIX system, for two components.\<close>

definition os_path_join :: "string \<Rightarrow> string \<Rightarrow> string" where
  "os_path_join a b =
     (if b \<noteq> [] \<and> hd b = CHR ''/'' then b
      else if a = [] \<or> last a = CHR ''/'' then a @ b
      else a @ ''/'' @ b)"

section \<open>The unloading session (counter.py, UnloadingSession)\<close>

text \<open>
  The \<^verbatim>\<open>cv2.VideoWriter\<close> handle held by a session: all the counter asks of it is
  \<^verbatim>\<open>isOpened()\<close>. The calls made on the external objects (the video writer and
  the tracker) are recorded as a list of effects returned by each operation: opening a
  writer with its path, rate, width and height, writing a frame, releasing the writer,
  and one tracker update with the detections handed over and the \<^verbatim>\<open>tracker_id\<close>
  array that came back.
\<close>

record VideoWriter =
  isOpened :: bool

type_synonym sv_detections = "(real list \<times> real \<times> int) list"

datatype effect =
    OpenWriter string real nat nat
  | WriteFrame frame
  | ReleaseWriter
  | TrackerUpdate sv_detections "int list option"

record UnloadingSession =
  gate_id :: string
  started_at :: real
  last_vehicle_seen :: real
  unique_bag_ids :: "int fset"
  bag_cluster_count :: int
  peak_bags_in_frame :: int
  total_frames :: int
  vehicle_confidence_sum :: real
  vehicle_detections :: int
  ended :: bool
  video_writer :: "VideoWriter option"
  video_path :: string
  video_size_bytes :: int

text \<open>
  The constructor call \<^verbatim>\<open>UnloadingSession(gate_id=...)\<close>: both time fields take a
  clock reading from their default factory, everything else its default.
\<close>

definition new_session :: "string \<Rightarrow> real \<Rightarrow> UnloadingSession" where
  "new_session g clk =
     \<lparr> gate_id = g, started_at = clk, last_vehicle_seen = clk,
       unique_bag_ids = {||}, bag_cluster_count = 0, peak_bags_in_frame = 0,
       total_frames = 0, vehicle_confidence_sum = 0, vehicle_detections = 0,
       ended = False, video_writer = None, video_path = [], video_size_bytes = 0 \<rparr>"

definition bag_count :: "UnloadingSession \<Rightarrow> int" where
  "bag_count s = int (fcard (unique_bag_ids s))"

definition estimated_total :: "UnloadingSession \<Rightarrow> int" where
  "estimated_total s = bag_count s + bag_cluster_count s"

definition avg_vehicle_confidence :: "float_ops \<Rightarrow> UnloadingSession \<Rightarrow> real" where
  "avg_vehicle_confidence ops s =
     (if vehicle_detections s = 0 then 0
      else fdiv ops (vehicle_confidence_sum s) (of_int (vehicle_detections s)))"

text \<open>The last argument is the clock reading taken when the session has not ended.\<close>

definition duration_seconds :: "float_ops \<Rightarrow> UnloadingSession \<Rightarrow> real \<Rightarrow> real" where
  "duration_seconds ops s clk =
     (let end = (if ended s then last_vehicle_seen s else clk)
      in fsub ops end (started_at s))"

definition start_recording ::
  "config \<Rightarrow> UnloadingSession \<Rightarrow> nat \<Rightarrow> nat \<Rightarrow> real \<Rightarrow> string \<Rightarrow> bool
     \<Rightarrow> UnloadingSession \<times> effect list" where
  "start_recording cfg s w h fps ts opens =
     (let p = os_path_join (VIDEO_DIR cfg) (gate_id s @ ''_'' @ ts @ ''.mp4'')
      in (s\<lparr>video_path := p, video_writer := Some \<lparr>isOpened = opens\<rparr>\<rparr>,
          [OpenWriter p fps w h]))"

definition write_frame :: "UnloadingSession \<Rightarrow> frame \<Rightarrow> effect list" where
  "write_frame s f =
     (case video_writer s of
        None \<Rightarrow> []
      | Some vw \<Rightarrow> if isOpened vw then [WriteFrame f] else [])"

definition stop_recording ::
  "UnloadingSession \<Rightarrow> nat option \<Rightarrow> UnloadingSession \<times> effect list" where
  "stop_recording s fsize =
     (let (s1, acts) =
            (case video_writer s of
               None \<Rightarrow> (s, [])
             | Some vw \<Rightarrow> (s\<lparr>video_writer := None\<rparr>, [ReleaseWriter]))
      in if video_path s1 \<noteq> [] then
           (case fsize of
              None \<Rightarrow> (s1, acts)
            | Some n \<Rightarrow> (s1\<lparr>video_size_bytes := int n\<rparr>, acts))
         else (s1, acts))"

text \<open>The dictionary returned by \<^verbatim>\<open>to_dict\<close>, one field per key.\<close>

record session_dict =
  dict_gate_id :: string
  dict_started_at :: real
  dict_duration_seconds :: real
  dict_bag_count :: int
  dict_bag_cluster_count :: int
  dict_estimated_total :: int
  dict_peak_bags_in_frame :: int
  dict_total_frames :: int
  dict_avg_vehicle_confidence :: real
  dict_video_path :: string
  dict_video_size_bytes :: int

definition to_dict :: "float_ops \<Rightarrow> UnloadingSession \<Rightarrow> real \<Rightarrow> session_dict" where
  "to_dict ops s clk =
     \<lparr> dict_gate_id = gate_id s,
       dict_started_at = started_at s,
       dict_duration_seconds = fround ops (duration_seconds ops s clk) 1,
       dict_bag_count = bag_count s,
       dict_bag_cluster_count = bag_cluster_count s,
       dict_estimated_total = estimated_total s,
       dict_peak_bags_in_frame = peak_bags_in_frame s,
       dict_total_frames = total_frames s,
       dict_avg_vehicle_confidence = fround ops (avg_vehicle_confidence ops s) 3,
       dict_video_path = video_path s,
       dict_video_size_bytes = video_size_bytes s \<rparr>"

section \<open>The per-gate counter (counter.py, BagCounter)\<close>

text \<open>
  The tracker is the external ByteTrack object. It is a parameter of the model: a state
  type \<open>'tr\<close>, the state \<open>fresh\<close> of a newly constructed tracker, and the function
  \<open>upd\<close> for \<^verbatim>\<open>update_with_detections\<close>, which takes the boxes, confidences and
  class ids handed over and returns the next tracker state with the \<^verbatim>\<open>tracker_id\<close>
  array of the result (\<open>None\<close> when that attribute is \<^verbatim>\<open>None\<close>).
\<close>

type_synonym 'tr tracker_update = "'tr \<Rightarrow> sv_detections \<Rightarrow> 'tr \<times> int list option"

record 'tr BagCounter =
  counter_gate_id :: string
  tracker :: 'tr
  session :: "UnloadingSession option"

definition new_counter :: "'tr \<Rightarrow> string \<Rightarrow> 'tr BagCounter" where
  "new_counter fresh g = \<lparr> counter_gate_id = g, tracker = fresh, session = None \<rparr>"

definition bags_of :: "tick \<Rightarrow> detection list" where
  "bags_of t = filter (\<lambda>d. class_id d = CLASS_POTATO_BAG) (detections t)"

definition clusters_of :: "tick \<Rightarrow> detection list" where
  "clusters_of t = filter (\<lambda>d. class_id d = CLASS_BAG_CLUSTER) (detections t)"

definition vehicles_of :: "tick \<Rightarrow> detection list" where
  "vehicles_of t = filter (\<lambda>d. class_id d = CLASS_VEHICLE) (detections t)"

definition to_sv :: "detection list \<Rightarrow> sv_detections" where
  "to_sv ds = map (\<lambda>d. (bbox d, confidence d, class_id d)) ds"

text \<open>
  Lines 141--153: a vehicle is present. A session is created when there is none (and
  recording started when a frame was passed); then the presence is recorded. The
  argument \<open>v # vs\<close> is the non-empty list of vehicle detections.
\<close>

definition vehicle_present ::
  "float_ops \<Rightarrow> config \<Rightarrow> 'tr BagCounter \<Rightarrow> tick \<Rightarrow> detection \<Rightarrow> detection list
     \<Rightarrow> UnloadingSession \<times> effect list" where
  "vehicle_present ops cfg bc t v vs =
     (let (s0, acts) =
            (case session bc of
               Some s \<Rightarrow> (s, [])
             | None \<Rightarrow>
                 (let s = new_session (counter_gate_id bc) (env_clock t)
                  in case tick_frame t of
                       None \<Rightarrow> (s, [])
                     | Some f \<Rightarrow>
                         start_recording cfg s (frame_width f) (frame_height f) 10
                           (env_timestamp t) (env_writer_opens t)))
      in (s0\<lparr> last_vehicle_seen := env_now t,
              vehicle_detections := vehicle_detections s0 + 1,
              vehicle_confidence_sum :=
                fadd ops (vehicle_confidence_sum s0)
                  (fold max (map confidence vs) (confidence v)) \<rparr>,
          acts))"

text \<open>
  Lines 179--215: the part of the call that runs when the session was not finalized.
  The frame is written, the bags are tracked and the clusters counted.
\<close>

definition track_bags ::
  "'tr tracker_update \<Rightarrow> 'tr \<Rightarrow> UnloadingSession \<Rightarrow> detection list
     \<Rightarrow> effect list \<times> 'tr \<times> UnloadingSession" where
  "track_bags upd tr s bags =
     (if bags \<noteq> [] then
        (let sv = to_sv bags;
             (tr', tracked) = upd tr sv;
             s1 = (case tracked of
                     None \<Rightarrow> s
                   | Some tids \<Rightarrow>
                       s\<lparr>unique_bag_ids := fold finsert tids (unique_bag_ids s)\<rparr>);
             s2 = s1\<lparr>total_frames := total_frames s1 + 1\<rparr>;
             bags_this_frame = int (length bags)
         in ([TrackerUpdate sv tracked], tr',
             if bags_this_frame > peak_bags_in_frame s2
             then s2\<lparr>peak_bags_in_frame := bags_this_frame\<rparr> else s2))
      else ([], tr, s))"

definition count_clusters :: "UnloadingSession \<Rightarrow> detection list \<Rightarrow> UnloadingSession" where
  "count_clusters s clusters =
     (if clusters \<noteq> [] then
        (let cluster_count = int (length clusters)
         in if cluster_count > bag_cluster_count s
            then s\<lparr>bag_cluster_count := cluster_count\<rparr> else s)
      else s)"

definition record_and_count ::
  "'tr tracker_update \<Rightarrow> 'tr BagCounter \<Rightarrow> UnloadingSession option \<Rightarrow> tick
     \<Rightarrow> effect list \<times> 'tr BagCounter" where
  "record_and_count upd bc so t =
     (case so of
        None \<Rightarrow> ([], bc\<lparr>session := None\<rparr>)
      | Some s \<Rightarrow>
          (let acts = (case tick_frame t of None \<Rightarrow> [] | Some f \<Rightarrow> write_frame s f);
               (acts', tr', s1) = track_bags upd (tracker bc) s (bags_of t);
               s2 = count_clusters s1 (clusters_of t)
           in (acts @ acts', bc\<lparr>tracker := tr', session := Some s2\<rparr>)))"

text \<open>
  \<^verbatim>\<open>BagCounter.process_frame\<close>. The result is the returned dictionary (or
  \<open>None\<close>), the effects of the call in order, and the counter after the call.
  Log lines are not modelled.
\<close>

definition process_frame ::
  "float_ops \<Rightarrow> config \<Rightarrow> 'tr tracker_update \<Rightarrow> 'tr \<Rightarrow> 'tr BagCounter \<Rightarrow> tick
     \<Rightarrow> session_dict option \<times> effect list \<times> 'tr BagCounter" where
  "process_frame ops cfg upd fresh bc t =
     (case vehicles_of t of
        v # vs \<Rightarrow>
          (let (s, acts) = vehicle_present ops cfg bc t v vs;
               (acts', bc') = record_and_count upd bc (Some s) t
           in (None, acts @ acts', bc'))
      | [] \<Rightarrow>
          (case session bc of
             None \<Rightarrow>
               (let (acts', bc') = record_and_count upd bc None t
                in (None, acts', bc'))
           | Some s \<Rightarrow>
               (let elapsed = fsub ops (env_now t) (last_vehicle_seen s)
                in if elapsed > of_int (VEHICLE_ABSENCE_TIMEOUT cfg) then
                     (let (s1, acts) = stop_recording (s\<lparr>ended := True\<rparr>) (env_file_size t);
                          completed_session = to_dict ops s1 (env_clock t)
                      in (Some completed_session, acts,
                          bc\<lparr>session := None, tracker := fresh\<rparr>))
                   else
                     (let (acts', bc') = record_and_count upd bc (Some s) t
                      in (None, acts', bc')))))"

text \<open>
  The calls the main loop makes on one counter, tick after tick: the dictionaries
  returned, the effects, and the counter at the end.
\<close>

fun run ::
  "float_ops \<Rightarrow> config \<Rightarrow> 'tr tracker_update \<Rightarrow> 'tr \<Rightarrow> 'tr BagCounter \<Rightarrow> tick list
     \<Rightarrow> session_dict option list \<times> effect list \<times> 'tr BagCounter" where
  "run ops cfg upd fresh bc [] = ([], [], bc)"
| "run ops cfg upd fresh bc (t # ts) =
     (let (out, acts, bc') = process_frame ops cfg upd fresh bc t;
          (outs, acts', bc'') = run ops cfg upd fresh bc' ts
      in (out # outs, acts @ acts', bc''))"

section \<open>Observations on calls and runs of the counter\<close>

text \<open>
  The condition of lines 156--158 under which a call finalizes the session: no vehicle
  in the tick, a session present, and more than the timeout elapsed since the vehicle
  was last seen.
\<close>

definition finalizing_tick ::
  "float_ops \<Rightarrow> config \<Rightarrow> 'tr BagCounter \<Rightarrow> tick \<Rightarrow> bool" where
  "finalizing_tick ops cfg bc t =
     (vehicles_of t = [] \<and>
      (case session bc of
         None \<Rightarrow> False
       | Some s \<Rightarrow>
           fsub ops (env_now t) (last_vehicle_seen s) > of_int (VEHICLE_ABSENCE_TIMEOUT cfg)))"

text \<open>The identities the tracker returned, over a list of effects.\<close>

fun tracked_ids :: "effect list \<Rightarrow> int fset" where
  "tracked_ids [] = {||}"
| "tracked_ids (TrackerUpdate sv (Some tids) # es) = fset_of_list tids |\<union>| tracked_ids es"
| "tracked_ids (e # es) = tracked_ids es"

text \<open>The frames written to the video writer, over a list of effects.\<close>

fun frames_written :: "effect list \<Rightarrow> frame list" where
  "frames_written [] = []"
| "frames_written (WriteFrame f # es) = f # frames_written es"
| "frames_written (e # es) = frames_written es"

text \<open>The number of dictionaries returned during a run.\<close>

definition completions :: "session_dict option list \<Rightarrow> nat" where
  "completions outs = length (filter (\<lambda>out. out \<noteq> None) outs)"

text \<open>
  The number of calls of a run that found no session and a vehicle in the tick, which
  are the calls that construct a session (line 145).
\<close>

fun visits_started ::
  "float_ops \<Rightarrow> config \<Rightarrow> 'tr tracker_update \<Rightarrow> 'tr \<Rightarrow> 'tr BagCounter \<Rightarrow> tick list \<Rightarrow> nat" where
  "visits_started ops cfg upd fresh bc [] = 0"
| "visits_started ops cfg upd fresh bc (t # ts) =
     (if session bc = None \<and> vehicles_of t \<noteq> [] then 1 else 0) +
       visits_started ops cfg upd fresh (snd (snd (process_frame ops cfg upd fresh bc t))) ts"

definition live :: "'tr BagCounter \<Rightarrow> nat" where
  "live bc = (case session bc of None \<Rightarrow> 0 | Some s \<Rightarrow> 1)"

text \<open>The number of cluster-class detections of each tick.\<close>

definition cluster_counts :: "tick list \<Rightarrow> int list" where
  "cluster_counts ts = map (\<lambda>t. int (length (clusters_of t))) ts"

text \<open>The two counters that are compared with list lengths are never negative.\<close>

definition counts_nonneg :: "UnloadingSession \<Rightarrow> bool" where
  "counts_nonneg s = (0 \<le> bag_cluster_count s \<and> 0 \<le> peak_bags_in_frame s)"

text \<open>
  The session that reaches line 179 when a session was present before the call and the
  call does not finalize it: lines 151--153 have been applied if a vehicle is in the tick.
\<close>

definition entering :: "float_ops \<Rightarrow> UnloadingSession \<Rightarrow> tick \<Rightarrow> UnloadingSession" where
  "entering ops s t =
     (case vehicles_of t of
        [] \<Rightarrow> s
      | v # vs \<Rightarrow>
          s\<lparr> last_vehicle_seen := env_now t,
              vehicle_detections := vehicle_detections s + 1,
              vehicle_confidence_sum :=
                fadd ops (vehicle_confidence_sum s)
                  (fold max (map confidence vs) (confidence v)) \<rparr>)"

text \<open>Which calls of a run returned a dictionary.\<close>

definition emissions :: "session_dict option list \<Rightarrow> bool list" where
  "emissions outs = map (\<lambda>out. out \<noteq> None) outs"

text \<open>
  The state machine of section 4.2 of the design, in its own words: the state is No-Visit
  (\<open>None\<close>) or Live with the time the anchor subject was last seen. A tick with an
  anchor-subject detection makes the state Live with the time of the tick and emits
  nothing. A tick without one emits nothing in No-Visit; in Live it computes the elapsed
  time since the subject was last seen, emits a completion and goes to No-Visit if that
  exceeds the absence timeout, and otherwise stays as it is.
\<close>

fun spec_completions :: "float_ops \<Rightarrow> config \<Rightarrow> real option \<Rightarrow> tick list \<Rightarrow> bool list" where
  "spec_completions ops cfg last_seen [] = []"
| "spec_completions ops cfg last_seen (t # ts) =
     (if \<exists>d \<in> set (detections t). class_id d = CLASS_VEHICLE
      then False # spec_completions ops cfg (Some (env_now t)) ts
      else
        (case last_seen of
           None \<Rightarrow> False # spec_completions ops cfg None ts
         | Some seen \<Rightarrow>
             if fsub ops (env_now t) seen > of_int (VEHICLE_ABSENCE_TIMEOUT cfg)
             then True # spec_completions ops cfg None ts
             else False # spec_completions ops cfg (Some seen) ts))"

text \<open>The time of the last tick of a list that has a vehicle detection.\<close>

fun last_vehicle_time :: "tick list \<Rightarrow> real option" where
  "last_vehicle_time [] = None"
| "last_vehicle_time (t # ts) =
     (case last_vehicle_time ts of
        Some x \<Rightarrow> Some x
      | None \<Rightarrow> if vehicles_of t \<noteq> [] then Some (env_now t) else None)"

section \<open>Example inputs\<close>

text \<open>
  The configuration with the defaults of \<^verbatim>\<open>config.py\<close>, a tracker that names each
  box by the integer part of its left edge, and ticks with a frame, whose clock readings
  all equal the given time.

  The float operations of the examples are the exact ones, with rounding to \<open>n\<close>
  decimals, ties to even. Double arithmetic gives the exact result whenever that result is
  a double; the numbers of the examples are chosen so that every operand and every result
  is one (multiples of 1/32 of moderate size), hence the examples are also runs of the
  code on doubles.
\<close>

definition exact_round :: "real \<Rightarrow> nat \<Rightarrow> real" where
  "exact_round x n =
     (let y = x * 10 ^ n; f = \<lfloor>y\<rfloor>; r = y - of_int f
      in of_int (if r < 1 / 2 then f
                 else if 1 / 2 < r then f + 1
                 else if even f then f else f + 1) / 10 ^ n)"

definition example_float_ops :: float_ops where
  "example_float_ops =
     \<lparr> fadd = (\<lambda>x y. x + y), fsub = (\<lambda>x y. x - y), fdiv = (\<lambda>x y. x / y),
       fround = exact_round \<rparr>"

definition example_config :: config where
  "example_config =
     \<lparr> BACKEND_URL = ''http://cold-backend:8080'', BACKEND_API_KEY = [],
       VEHICLE_ABSENCE_TIMEOUT = 30, MIN_BAG_COUNT_TO_REPORT = 1,
       VIDEO_DIR = ''/tmp/detection_videos'' \<rparr>"

definition example_tracker :: "nat tracker_update" where
  "example_tracker n sv =
     (Suc n, Some (map (\<lambda>(b, c, k). case b of [] \<Rightarrow> 0 | x # xs \<Rightarrow> \<lfloor>x\<rfloor>) sv))"

definition example_detection :: "int \<Rightarrow> real \<Rightarrow> real \<Rightarrow> detection" where
  "example_detection k c x =
     \<lparr> class_id = k, class_name = [], confidence = c,
       bbox = [x, 0, x + 10, 10], bbox_norm = [] \<rparr>"

definition example_tick :: "detection list \<Rightarrow> real \<Rightarrow> tick" where
  "example_tick ds now =
     \<lparr> detections = ds,
       tick_frame = Some \<lparr> frame_height = 480, frame_width = 640, frame_data = 0 \<rparr>,
       env_now = now, env_clock = now, env_timestamp = ''20240101_000000'',
       env_writer_opens = True, env_file_size = Some 1024 \<rparr>"

definition example_counter :: "nat BagCounter" where
  "example_counter = new_counter 0 ''gate1''"

definition example_vehicle :: "real \<Rightarrow> detection" where
  "example_vehicle c = example_detection CLASS_VEHICLE c 0"

definition example_bag :: "real \<Rightarrow> detection" where
  "example_bag x = example_detection CLASS_POTATO_BAG (1 / 2) x"

definition example_cluster :: "real \<Rightarrow> detection" where
  "example_cluster x = example_detection CLASS_BAG_CLUSTER (1 / 4) x"

text \<open>
  Three ticks with the vehicle present, at times 100, 100.5 and 101.03125 and confidences
  0.5, 0.75 and 1, in which the tracker sees the bags 1 and 2, then 2 and 3, then 3 and 4.
\<close>

definition example_visit :: "tick list" where
  "example_visit =
     [example_tick [example_vehicle (1 / 2), example_bag 1, example_bag 2] 100,
      example_tick [example_vehicle (3 / 4), example_bag 2, example_bag 3] (201 / 2),
      example_tick [example_vehicle 1, example_bag 3, example_bag 4] (3233 / 32)]"

text \<open>The counter after these three ticks.\<close>

definition example_live_counter :: "nat BagCounter" where
  "example_live_counter =
     snd (snd (run example_float_ops example_config example_tracker 0 example_counter example_visit))"

text \<open>
  Four ticks whose numbers of cluster detections are 2, 5, 3 and 1; the vehicle is in
  the first and the third.
\<close>

definition example_cluster_visit :: "tick list" where
  "example_cluster_visit =
     [example_tick (example_vehicle (1 / 2) # map example_cluster [1, 2]) 100,
      example_tick (map example_cluster [1, 2, 3, 4, 5]) 101,
      example_tick (example_vehicle (1 / 2) # map example_cluster [1, 2, 3]) 102,
      example_tick [example_cluster 1] 103]"

text \<open>
  A vehicle at times 0 and 29, then empty ticks at 31, 59, 60 and 100: with the timeout
  of 30 seconds the absence first exceeds the timeout at time 60.
\<close>

definition example_absences :: "tick list" where
  "example_absences =
     [example_tick [example_vehicle (1 / 2)] 0, example_tick [example_vehicle (1 / 2)] 29,
      example_tick [] 31, example_tick [] 59, example_tick [] 60, example_tick [] 100]"

section \<open>Reporting a completed session (main.py, report_session)\<close>

text \<open>
  The HTTP client is external. What \<^verbatim>\<open>requests.post\<close> does when it is called
  is an input of the model: it answers with a response (status code and body text) or
  raises \<^verbatim>\<open>requests.RequestException\<close>. The result of \<open>report_session\<close> is the
  list of requests it issued and the log lines it wrote.
\<close>

record request =
  req_url :: string
  req_json :: session_dict
  req_headers :: "(string \<times> string) list"
  req_timeout :: int

datatype post_result =
    Response int string
  | RequestException string

datatype log_line =
    InfoSkipped string int
  | InfoReported string int
  | ErrorRejected int string
  | ErrorFailed string

definition report_session ::
  "config \<Rightarrow> post_result \<Rightarrow> session_dict \<Rightarrow> request list \<times> log_line list" where
  "report_session cfg answer sess =
     (if dict_estimated_total sess < MIN_BAG_COUNT_TO_REPORT cfg then
        ([], [InfoSkipped (dict_gate_id sess) (dict_estimated_total sess)])
      else
        (let url = BACKEND_URL cfg @ ''/api/detections'';
             headers = [(''Content-Type'', ''application/json'')];
             headers = (if BACKEND_API_KEY cfg \<noteq> []
                        then headers @ [(''Authorization'', ''Bearer '' @ BACKEND_API_KEY cfg)]
                        else headers);
             req = \<lparr> req_url = url, req_json = sess, req_headers = headers, req_timeout = 10 \<rparr>
         in case answer of
              Response status_code body \<Rightarrow>
                if status_code = 200 \<or> status_code = 201
                then ([req], [InfoReported (dict_gate_id sess) (dict_estimated_total sess)])
                else ([req], [ErrorRejected status_code (take 200 body)])
            | RequestException e \<Rightarrow> ([req], [ErrorFailed e])))"

section \<open>The camera reader (camera.py, CameraStream)\<close>

text \<open>
  The background loop reads a flag that another thread clears, opens the stream, reads
  the clock and decodes frames. Each of these reads is an observation supplied from
  outside: one \<open>loop_obs\<close> per pass of the outer loop, carrying the value of
  \<^verbatim>\<open>_running\<close> at the loop head and the outcome of opening the stream; for a stream
  that opened, one \<open>read_obs\<close> per pass of the inner loop and the value of
  \<^verbatim>\<open>_running\<close> read after the capture is released. The lock is not modelled.
  The duration \<open>1 / 1000\<close> stands for the float literal \<^verbatim>\<open>0.001\<close>.
\<close>

record CameraStream =
  cam_gate_id :: string
  url :: string
  target_fps :: int
  cam_frame :: "frame option"
  reconnect_delay :: int
  consecutive_failures :: int

definition new_camera :: "string \<Rightarrow> string \<Rightarrow> int \<Rightarrow> CameraStream" where
  "new_camera g u fps =
     \<lparr> cam_gate_id = g, url = u, target_fps = fps, cam_frame = None,
       reconnect_delay = 5, consecutive_failures = 0 \<rparr>"

record read_obs =
  ro_running :: bool
  ro_now :: real
  ro_read :: "frame option"

datatype open_obs =
    OpenFailed
  | Opened "read_obs list" bool

record loop_obs =
  lo_running :: bool
  lo_open :: open_obs

datatype cam_action =
    Sleep real
  | Grab
  | ReleaseCapture
  | WarnOpenFailed int int
  | InfoConnected
  | WarnLost

text \<open>
  How a loop stands when the observations are used up: still inside the loop, returned
  because \<^verbatim>\<open>_running\<close> was false, or ended by an exception.
\<close>

datatype loop_status = Looping | Returned | Raised string

text \<open>
  The inner loop (lines 68--84). The result tells whether the loop was left, by the flag
  or by the \<^verbatim>\<open>break\<close> after a failed read.
\<close>

fun read_frames ::
  "float_ops \<Rightarrow> real \<Rightarrow> real \<Rightarrow> frame option \<Rightarrow> read_obs list
     \<Rightarrow> frame option \<times> cam_action list \<times> bool" where
  "read_frames ops frame_interval last_read fr [] = (fr, [], False)"
| "read_frames ops frame_interval last_read fr (ob # obs) =
     (if \<not> ro_running ob then (fr, [], True)
      else if fsub ops (ro_now ob) last_read < frame_interval then
        (let (fr', acts, left) = read_frames ops frame_interval last_read fr obs
         in (fr', Grab # Sleep (1 / 1000) # acts, left))
      else
        (case ro_read ob of
           None \<Rightarrow> (fr, [WarnLost], True)
         | Some f \<Rightarrow> read_frames ops frame_interval (ro_now ob) (Some f) obs))"

text \<open>The delay computed on line 54, from the counter already incremented.\<close>

definition backoff_delay :: "CameraStream \<Rightarrow> int" where
  "backoff_delay cam = min (reconnect_delay cam * consecutive_failures cam) 60"

text \<open>The outer loop of \<^verbatim>\<open>_read_loop\<close> (lines 50--89).\<close>

fun read_loop ::
  "float_ops \<Rightarrow> CameraStream \<Rightarrow> loop_obs list
     \<Rightarrow> CameraStream \<times> cam_action list \<times> loop_status" where
  "read_loop ops cam [] = (cam, [], Looping)"
| "read_loop ops cam (ob # obs) =
     (if \<not> lo_running ob then (cam, [], Returned)
      else
        (case lo_open ob of
           OpenFailed \<Rightarrow>
             (let cam1 = cam\<lparr>consecutive_failures := consecutive_failures cam + 1\<rparr>;
                  delay = backoff_delay cam1;
                  (cam', acts, st) = read_loop ops cam1 obs
              in (cam',
                  WarnOpenFailed (consecutive_failures cam1) delay # Sleep (of_int delay) # acts,
                  st))
         | Opened reads running_after \<Rightarrow>
             (let cam1 = cam\<lparr>consecutive_failures := 0\<rparr>
              in if target_fps cam1 = 0
                 then (cam1, [InfoConnected], Raised ''ZeroDivisionError'')
                 else
                   (let frame_interval = fdiv ops 1 (of_int (target_fps cam1));
                        (fr, acts, left) =
                          read_frames ops frame_interval 0 (cam_frame cam1) reads;
                        cam2 = cam1\<lparr>cam_frame := fr\<rparr>
                    in if \<not> left then (cam2, InfoConnected # acts, Looping)
                       else
                         (let tail_acts =
                                ReleaseCapture #
                                  (if running_after then [Sleep (of_int (reconnect_delay cam2))]
                                   else []);
                              (cam', acts', st) = read_loop ops cam2 obs
                          in (cam', InfoConnected # acts @ tail_acts @ acts', st))))))"

text \<open>
  The delay as section 4.1 of the design words it: the base delay times the failure count
  limited to twelve, capped at the maximum delay.
\<close>

definition spec_backoff :: "int \<Rightarrow> int \<Rightarrow> int \<Rightarrow> int" where
  "spec_backoff base_delay max_delay failures = min (base_delay * min failures 12) max_delay"

text \<open>One pass of the outer loop in which the flag is set and the stream does not open.\<close>

definition failed_open :: loop_obs where
  "failed_open = \<lparr> lo_running = True, lo_open = OpenFailed \<rparr>"

text \<open>The durations of the calls of \<^verbatim>\<open>time.sleep\<close>, over a list of actions.\<close>

fun sleeps :: "cam_action list \<Rightarrow> real list" where
  "sleeps [] = []"
| "sleeps (Sleep d # as) = d # sleeps as"
| "sleeps (a # as) = sleeps as"

text \<open>
  The durations slept right after a failed open (lines 53--59), over a list of actions,
  and for each pass of the outer loop whether the stream opened.
\<close>

fun backoff_sleeps :: "cam_action list \<Rightarrow> real list" where
  "backoff_sleeps [] = []"
| "backoff_sleeps (WarnOpenFailed k d # Sleep x # as) = x # backoff_sleeps as"
| "backoff_sleeps (a # as) = backoff_sleeps as"

definition open_outcomes :: "loop_obs list \<Rightarrow> bool list" where
  "open_outcomes obs = map (\<lambda>ob. lo_open ob \<noteq> OpenFailed) obs"

text \<open>
  A pass of the outer loop that runs to its end: the flag is set at the loop head, and if
  the stream opened the inner loop is left, by the flag or by a failed read.
\<close>

definition complete_pass :: "float_ops \<Rightarrow> CameraStream \<Rightarrow> loop_obs \<Rightarrow> bool" where
  "complete_pass ops cam ob =
     (lo_running ob \<and>
      (case lo_open ob of
         OpenFailed \<Rightarrow> True
       | Opened reads running_after \<Rightarrow>
           snd (snd (read_frames ops (fdiv ops 1 (of_int (target_fps cam))) 0 None reads))))"

text \<open>
  The delays as section 8 of the design words them: the delay for the k-th consecutive
  failure is the base delay times k, capped at the maximum delay; a successful open ends
  the streak of failures.
\<close>

fun streak_delays :: "int \<Rightarrow> int \<Rightarrow> int \<Rightarrow> bool list \<Rightarrow> int list" where
  "streak_delays base_delay max_delay k [] = []"
| "streak_delays base_delay max_delay k (opened # outcomes) =
     (if opened then streak_delays base_delay max_delay 0 outcomes
      else min (base_delay * (k + 1)) max_delay #
             streak_delays base_delay max_delay (k + 1) outcomes)"

text \<open>
  Two failed opens, a stream that opens and is lost at the first read, and one more
  failed open.
\<close>

definition example_passes :: "loop_obs list" where
  "example_passes =
     [failed_open, failed_open,
      \<lparr> lo_running = True,
        lo_open = Opened [\<lparr> ro_running = True, ro_now = 1, ro_read = None \<rparr>] True \<rparr>,
      failed_open]"

text \<open>
  The session held by \<open>example_live_counter\<close>, and the dictionary returned when that
  session is finalized by an empty tick at time 132.
\<close>

definition example_live_session :: UnloadingSession where
  "example_live_session =
     \<lparr> gate_id = ''gate1'', started_at = 100, last_vehicle_seen = 3233 / 32,
       unique_bag_ids = {|1, 2, 3, 4|}, bag_cluster_count = 0, peak_bags_in_frame = 2,
       total_frames = 3, vehicle_confidence_sum = 9 / 4, vehicle_detections = 3,
       ended = False, video_writer = Some \<lparr>isOpened = True\<rparr>,
       video_path = ''/tmp/detection_videos/gate1_20240101_000000.mp4'',
       video_size_bytes = 0 \<rparr>"

definition example_completed :: session_dict where
  "example_completed =
     \<lparr> dict_gate_id = ''gate1'', dict_started_at = 100, dict_duration_seconds = 1,
       dict_bag_count = 4, dict_bag_cluster_count = 0, dict_estimated_total = 4,
       dict_peak_bags_in_frame = 2, dict_total_frames = 3,
       dict_avg_vehicle_confidence = 3 / 4,
       dict_video_path = ''/tmp/detection_videos/gate1_20240101_000000.mp4'',
       dict_video_size_bytes = 1024 \<rparr>"

section \<open>The shape of one call of the counter\<close>

text \<open>
  A call of \<^verbatim>\<open>process_frame\<close> takes one of four paths: a vehicle is present; no
  vehicle and no session; no vehicle and the session finalized; no vehicle and the
  session kept.
\<close>

lemma process_frame_finalizing:
  assumes "finalizing_tick ops cfg bc t" "session bc = Some s"
  shows "process_frame ops cfg upd fresh bc t =
     (Some (to_dict ops (fst (stop_recording (s\<lparr>ended := True\<rparr>) (env_file_size t))) (env_clock t)),
      snd (stop_recording (s\<lparr>ended := True\<rparr>) (env_file_size t)),
      bc\<lparr>session := None, tracker := fresh\<rparr>)"
  using assms
  by (simp add: process_frame_def finalizing_tick_def Let_def split: prod.splits)

lemma process_frame_vehicle:
  assumes "vehicles_of t = v # vs"
  shows "process_frame ops cfg upd fresh bc t =
     (None, snd (vehicle_present ops cfg bc t v vs) @
            fst (record_and_count upd bc (Some (fst (vehicle_present ops cfg bc t v vs))) t),
      snd (record_and_count upd bc (Some (fst (vehicle_present ops cfg bc t v vs))) t))"
  using assms by (simp add: process_frame_def Let_def split: prod.splits)

lemma process_frame_idle:
  assumes "vehicles_of t = []" "session bc = None"
  shows "process_frame ops cfg upd fresh bc t = (None, [], bc)"
  using assms by (simp add: process_frame_def record_and_count_def)

lemma process_frame_waiting:
  assumes "vehicles_of t = []" "session bc = Some s" "\<not> finalizing_tick ops cfg bc t"
  shows "process_frame ops cfg upd fresh bc t =
     (None, fst (record_and_count upd bc (Some s) t), snd (record_and_count upd bc (Some s) t))"
  using assms
  by (simp add: process_frame_def finalizing_tick_def Let_def split: prod.splits)

lemma record_and_count_session:
  "\<exists>s'. session (snd (record_and_count upd bc (Some s) t)) = Some s'"
  by (simp add: record_and_count_def Let_def split: prod.splits option.splits)

lemma emits_iff:
  "fst (process_frame ops cfg upd fresh bc t) \<noteq> None \<longleftrightarrow> finalizing_tick ops cfg bc t"
proof (cases "vehicles_of t")
  case Nil
  show ?thesis
  proof (cases "session bc")
    case None
    with Nil show ?thesis by (simp add: process_frame_idle finalizing_tick_def)
  next
    case (Some s)
    with Nil show ?thesis
      by (cases "finalizing_tick ops cfg bc t")
         (simp_all add: process_frame_finalizing process_frame_waiting)
  qed
next
  case (Cons v vs)
  then show ?thesis by (simp add: process_frame_vehicle finalizing_tick_def)
qed

lemma session_after:
  "session (snd (snd (process_frame ops cfg upd fresh bc t))) = None \<longleftrightarrow>
     finalizing_tick ops cfg bc t \<or> (session bc = None \<and> vehicles_of t = [])"
proof (cases "vehicles_of t")
  case Nil
  show ?thesis
  proof (cases "session bc")
    case None
    with Nil show ?thesis by (simp add: process_frame_idle finalizing_tick_def)
  next
    case (Some s)
    with Nil record_and_count_session[of upd bc s t] show ?thesis
      by (cases "finalizing_tick ops cfg bc t")
         (auto simp add: process_frame_finalizing process_frame_waiting)
  qed
next
  case (Cons v vs)
  with record_and_count_session[of upd bc "fst (vehicle_present ops cfg bc t v vs)" t]
  show ?thesis by (auto simp add: process_frame_vehicle finalizing_tick_def)
qed

lemma live_step:
  "live (snd (snd (process_frame ops cfg upd fresh bc t))) +
     (if fst (process_frame ops cfg upd fresh bc t) \<noteq> None then 1 else 0) =
   live bc + (if session bc = None \<and> vehicles_of t \<noteq> [] then 1 else 0)"
proof -
  have a: "live b = (if session b = None then 0 else 1)" for b :: "'a BagCounter"
    by (simp add: live_def split: option.splits)
  have f: "finalizing_tick ops cfg bc t \<Longrightarrow> session bc \<noteq> None \<and> vehicles_of t = []"
    by (auto simp: finalizing_tick_def split: option.splits)
  show ?thesis
    unfolding a emits_iff session_after using f by auto
qed

lemma run_counts:
  "completions (fst (run ops cfg upd fresh bc ts)) + live (snd (snd (run ops cfg upd fresh bc ts))) =
     visits_started ops cfg upd fresh bc ts + live bc"
proof (induction ts arbitrary: bc)
  case Nil
  show ?case by (simp add: completions_def)
next
  case (Cons t ts)
  obtain out acts bc' where p: "process_frame ops cfg upd fresh bc t = (out, acts, bc')"
    by (cases "process_frame ops cfg upd fresh bc t") auto
  obtain outs acts' bc'' where r: "run ops cfg upd fresh bc' ts = (outs, acts', bc'')"
    by (cases "run ops cfg upd fresh bc' ts") auto
  from Cons.IH[of bc'] r
  have ih: "completions outs + live bc'' = visits_started ops cfg upd fresh bc' ts + live bc'"
    by simp
  from live_step[of ops cfg upd fresh bc t] p
  have st: "live bc' + (if out \<noteq> None then 1 else 0) =
     live bc + (if session bc = None \<and> vehicles_of t \<noteq> [] then 1 else 0)" by simp
  have c: "completions (out # outs) = (if out \<noteq> None then 1 else 0) + completions outs"
    by (simp add: completions_def)
  show ?case using ih st by (simp add: p r c)
qed

lemma vehicles_of_nonempty:
  "vehicles_of t \<noteq> [] \<longleftrightarrow> (\<exists>d \<in> set (detections t). class_id d = CLASS_VEHICLE)"
  by (auto simp: vehicles_of_def filter_empty_conv)

lemma run_idle:
  "\<forall>t \<in> set ts. vehicles_of t = [] \<Longrightarrow> session bc = None \<Longrightarrow>
     run ops cfg upd fresh bc ts = (replicate (length ts) None, [], bc)"
  by (induction ts) (simp_all add: process_frame_idle)

lemma vehicle_present_new:
  "session bc = None \<Longrightarrow>
     started_at (fst (vehicle_present ops cfg bc t v vs)) = env_clock t \<and>
     gate_id (fst (vehicle_present ops cfg bc t v vs)) = counter_gate_id bc \<and>
     unique_bag_ids (fst (vehicle_present ops cfg bc t v vs)) = {||} \<and>
     bag_cluster_count (fst (vehicle_present ops cfg bc t v vs)) = 0 \<and>
     peak_bags_in_frame (fst (vehicle_present ops cfg bc t v vs)) = 0 \<and>
     total_frames (fst (vehicle_present ops cfg bc t v vs)) = 0"
  by (simp add: vehicle_present_def new_session_def start_recording_def Let_def
      split: option.splits)

lemma vehicle_present_old:
  "session bc = Some s \<Longrightarrow>
     vehicle_present ops cfg bc t v vs =
       (s\<lparr> last_vehicle_seen := env_now t,
            vehicle_detections := vehicle_detections s + 1,
            vehicle_confidence_sum :=
              fadd ops (vehicle_confidence_sum s)
                (fold max (map confidence vs) (confidence v)) \<rparr>, [])"
  by (simp add: vehicle_present_def)

lemma track_bags_keeps:
  "started_at (snd (snd (track_bags upd tr s bags))) = started_at s \<and>
   gate_id (snd (snd (track_bags upd tr s bags))) = gate_id s \<and>
   bag_cluster_count (snd (snd (track_bags upd tr s bags))) = bag_cluster_count s"
  by (simp add: track_bags_def Let_def split: prod.splits option.splits)

lemma count_clusters_keeps:
  "started_at (count_clusters s cs) = started_at s \<and>
   gate_id (count_clusters s cs) = gate_id s \<and>
   unique_bag_ids (count_clusters s cs) = unique_bag_ids s \<and>
   total_frames (count_clusters s cs) = total_frames s \<and>
   peak_bags_in_frame (count_clusters s cs) = peak_bags_in_frame s"
  by (simp add: count_clusters_def Let_def)

lemma record_and_count_Some:
  "record_and_count upd bc (Some s) t =
     ((case tick_frame t of None \<Rightarrow> [] | Some f \<Rightarrow> write_frame s f) @
        fst (track_bags upd (tracker bc) s (bags_of t)),
      bc\<lparr> tracker := fst (snd (track_bags upd (tracker bc) s (bags_of t))),
           session := Some (count_clusters (snd (snd (track_bags upd (tracker bc) s (bags_of t))))
                              (clusters_of t)) \<rparr>)"
  by (simp add: record_and_count_def Let_def split: prod.splits)

lemma record_and_count_keeps:
  "session (snd (record_and_count upd bc (Some s) t)) = Some s' \<Longrightarrow>
     started_at s' = started_at s \<and> gate_id s' = gate_id s"
  by (auto simp: record_and_count_Some track_bags_keeps count_clusters_keeps)

lemma stop_recording_fields:
  "unique_bag_ids (fst (stop_recording s fs)) = unique_bag_ids s \<and>
   bag_cluster_count (fst (stop_recording s fs)) = bag_cluster_count s \<and>
   peak_bags_in_frame (fst (stop_recording s fs)) = peak_bags_in_frame s \<and>
   total_frames (fst (stop_recording s fs)) = total_frames s \<and>
   started_at (fst (stop_recording s fs)) = started_at s \<and>
   last_vehicle_seen (fst (stop_recording s fs)) = last_vehicle_seen s \<and>
   ended (fst (stop_recording s fs)) = ended s"
  by (simp add: stop_recording_def Let_def split: option.splits prod.splits)

lemma stop_recording_effects:
  "snd (stop_recording s fs) = (if video_writer s = None then [] else [ReleaseWriter])"
  by (simp add: stop_recording_def Let_def split: option.splits prod.splits)

section \<open>Calls that keep or construct a session\<close>

lemma fold_finsert: "fold finsert xs A = A |\<union>| fset_of_list xs"
  by (induction xs arbitrary: A) auto

lemma tracked_ids_append: "tracked_ids (es @ fs) = tracked_ids es |\<union>| tracked_ids fs"
  by (induction es rule: tracked_ids.induct) auto

lemma track_bags_effects:
  "fst (track_bags upd tr s bags) =
     (if bags = [] then [] else [TrackerUpdate (to_sv bags) (snd (upd tr (to_sv bags)))])"
  by (simp add: track_bags_def Let_def split: prod.splits)

lemma track_bags_ids:
  "unique_bag_ids (snd (snd (track_bags upd tr s bags))) =
     unique_bag_ids s |\<union>| tracked_ids (fst (track_bags upd tr s bags))"
  by (simp add: track_bags_def Let_def fold_finsert split: prod.splits option.splits)

lemma track_bags_total:
  "total_frames (snd (snd (track_bags upd tr s bags))) =
     total_frames s + (if bags = [] then 0 else 1)"
  by (simp add: track_bags_def Let_def split: prod.splits option.splits)

lemma track_bags_peak:
  "0 \<le> peak_bags_in_frame s \<Longrightarrow>
   peak_bags_in_frame (snd (snd (track_bags upd tr s bags))) =
     max (peak_bags_in_frame s) (int (length bags))"
  by (simp add: track_bags_def Let_def split: prod.splits option.splits)

lemma count_clusters_max:
  "0 \<le> bag_cluster_count s \<Longrightarrow>
   bag_cluster_count (count_clusters s cs) = max (bag_cluster_count s) (int (length cs))"
  by (simp add: count_clusters_def Let_def)

lemma write_frame_effects:
  "write_frame s f =
     (if (case video_writer s of None \<Rightarrow> False | Some vw \<Rightarrow> isOpened vw) then [WriteFrame f] else [])"
  by (simp add: write_frame_def split: option.splits)

lemma tracked_ids_write: "tracked_ids (case fo of None \<Rightarrow> [] | Some f \<Rightarrow> write_frame s f) = {||}"
  by (simp add: write_frame_def split: option.splits)

lemma tracked_ids_vehicle_present: "tracked_ids (snd (vehicle_present ops cfg bc t v vs)) = {||}"
  by (simp add: vehicle_present_def start_recording_def Let_def split: option.splits)

lemma process_frame_live:
  assumes s: "session bc = Some s" and nf: "\<not> finalizing_tick ops cfg bc t"
  shows "process_frame ops cfg upd fresh bc t =
     (None, fst (record_and_count upd bc (Some (entering ops s t)) t),
      snd (record_and_count upd bc (Some (entering ops s t)) t))"
proof (cases "vehicles_of t")
  case Nil
  then show ?thesis using process_frame_waiting[OF Nil s nf] by (simp add: entering_def)
next
  case (Cons v vs)
  then show ?thesis
    by (simp add: process_frame_vehicle[OF Cons] vehicle_present_old[OF s] entering_def)
qed

lemma entering_fields:
  "unique_bag_ids (entering ops s t) = unique_bag_ids s \<and>
   total_frames (entering ops s t) = total_frames s \<and>
   peak_bags_in_frame (entering ops s t) = peak_bags_in_frame s \<and>
   bag_cluster_count (entering ops s t) = bag_cluster_count s \<and>
   video_writer (entering ops s t) = video_writer s"
  by (simp add: entering_def split: list.splits)

lemma live_tick_update:
  assumes s: "session bc = Some s" and nf: "\<not> finalizing_tick ops cfg bc t"
    and ok: "counts_nonneg s"
  shows "\<exists>s'. session (snd (snd (process_frame ops cfg upd fresh bc t))) = Some s' \<and>
     total_frames s' = total_frames s + (if bags_of t = [] then 0 else 1) \<and>
     unique_bag_ids s' =
       unique_bag_ids s |\<union>| tracked_ids (fst (snd (process_frame ops cfg upd fresh bc t))) \<and>
     peak_bags_in_frame s' = max (peak_bags_in_frame s) (int (length (bags_of t))) \<and>
     bag_cluster_count s' = max (bag_cluster_count s) (int (length (clusters_of t))) \<and>
     counts_nonneg s'"
proof -
  let ?e = "entering ops s t"
  let ?tb = "track_bags upd (tracker bc) ?e (bags_of t)"
  let ?s' = "count_clusters (snd (snd ?tb)) (clusters_of t)"
  note p = process_frame_live[OF s nf, of upd fresh]
  have 1: "session (snd (snd (process_frame ops cfg upd fresh bc t))) = Some ?s'"
    unfolding p by (simp add: record_and_count_Some)
  have e: "fst (snd (process_frame ops cfg upd fresh bc t)) =
      (case tick_frame t of None \<Rightarrow> [] | Some f \<Rightarrow> write_frame ?e f) @ fst ?tb"
    unfolding p by (simp add: record_and_count_Some)
  have 2: "total_frames ?s' = total_frames s + (if bags_of t = [] then 0 else 1)"
    by (simp add: count_clusters_keeps track_bags_total entering_fields)
  have 3: "unique_bag_ids ?s' =
       unique_bag_ids s |\<union>| tracked_ids (fst (snd (process_frame ops cfg upd fresh bc t)))"
    unfolding e by (simp add: count_clusters_keeps track_bags_ids entering_fields
        tracked_ids_append tracked_ids_write)
  from ok have pk: "0 \<le> peak_bags_in_frame ?e" and cl: "0 \<le> bag_cluster_count (snd (snd ?tb))"
    by (simp_all add: counts_nonneg_def entering_fields track_bags_keeps)
  have 4: "peak_bags_in_frame ?s' = max (peak_bags_in_frame s) (int (length (bags_of t)))"
    using track_bags_peak[OF pk, of upd "tracker bc" "bags_of t"]
    by (simp add: count_clusters_keeps entering_fields)
  have 5: "bag_cluster_count ?s' = max (bag_cluster_count s) (int (length (clusters_of t)))"
    using count_clusters_max[OF cl, of "clusters_of t"]
    by (simp add: track_bags_keeps entering_fields)
  from 4 5 ok have 6: "counts_nonneg ?s'" by (simp add: counts_nonneg_def le_max_iff_disj)
  from 1 2 3 4 5 6 show ?thesis by blast
qed

lemma live_tick_effects:
  assumes s: "session bc = Some s" and nf: "\<not> finalizing_tick ops cfg bc t"
  shows "fst (snd (process_frame ops cfg upd fresh bc t)) =
     (case tick_frame t of
        None \<Rightarrow> []
      | Some f \<Rightarrow>
          if (case video_writer s of None \<Rightarrow> False | Some vw \<Rightarrow> isOpened vw)
          then [WriteFrame f] else []) @
     (if bags_of t = [] then []
      else [TrackerUpdate (to_sv (bags_of t)) (snd (upd (tracker bc) (to_sv (bags_of t))))])"
  unfolding process_frame_live[OF s nf]
  by (simp add: record_and_count_Some track_bags_effects write_frame_effects entering_fields
      split: option.splits)

lemma frames_written_append: "frames_written (es @ fs) = frames_written es @ frames_written fs"
  by (induction es rule: frames_written.induct) auto

lemma live_tick_ids:
  assumes s: "session bc = Some s" and nf: "\<not> finalizing_tick ops cfg bc t"
  shows "\<exists>s'. session (snd (snd (process_frame ops cfg upd fresh bc t))) = Some s' \<and>
     unique_bag_ids s' =
       unique_bag_ids s |\<union>| tracked_ids (fst (snd (process_frame ops cfg upd fresh bc t)))"
  unfolding process_frame_live[OF s nf]
  by (simp add: record_and_count_Some count_clusters_keeps track_bags_ids entering_fields
        tracked_ids_append tracked_ids_write)

lemma creation_tick_counters:
  assumes n: "session bc = None" and v: "vehicles_of t \<noteq> []"
    and s': "session (snd (snd (process_frame ops cfg upd fresh bc t))) = Some s'"
  shows "total_frames s' = (if bags_of t = [] then 0 else 1) \<and>
     peak_bags_in_frame s' = int (length (bags_of t))"
proof -
  from v obtain v0 vs where c: "vehicles_of t = v0 # vs" by (cases "vehicles_of t") auto
  let ?e = "fst (vehicle_present ops cfg bc t v0 vs)"
  note e = vehicle_present_new[OF n, of ops cfg t v0 vs]
  have pk: "0 \<le> peak_bags_in_frame ?e" by (simp add: e)
  from s' have "s' = count_clusters (snd (snd (track_bags upd (tracker bc) ?e (bags_of t))))
      (clusters_of t)"
    by (simp add: process_frame_vehicle[OF c] record_and_count_Some)
  then show ?thesis
    using track_bags_peak[OF pk, of upd "tracker bc" "bags_of t"]
    by (simp add: count_clusters_keeps track_bags_total e)
qed

lemma creation_tick_effects:
  assumes n: "session bc = None" and v: "vehicles_of t \<noteq> []"
  shows "frames_written (fst (snd (process_frame ops cfg upd fresh bc t))) =
     (case tick_frame t of None \<Rightarrow> [] | Some f \<Rightarrow> if env_writer_opens t then [f] else [])"
proof -
  from v obtain v0 vs where c: "vehicles_of t = v0 # vs" by (cases "vehicles_of t") auto
  show ?thesis
    unfolding process_frame_vehicle[OF c]
    by (simp add: record_and_count_Some frames_written_append track_bags_effects
        vehicle_present_def n new_session_def start_recording_def write_frame_def Let_def
        split: option.splits)
qed

section \<open>Runs without a completion\<close>

lemma completions_Cons:
  "completions (out # outs) = 0 \<longleftrightarrow> out = None \<and> completions outs = 0"
  by (simp add: completions_def)

lemma creation_tick:
  assumes n: "session bc = None" and v: "vehicles_of t \<noteq> []"
  shows "\<exists>s'. session (snd (snd (process_frame ops cfg upd fresh bc t))) = Some s' \<and>
     unique_bag_ids s' = tracked_ids (fst (snd (process_frame ops cfg upd fresh bc t))) \<and>
     bag_cluster_count s' = int (length (clusters_of t)) \<and>
     counts_nonneg s'"
proof -
  from v obtain v0 vs where c: "vehicles_of t = v0 # vs" by (cases "vehicles_of t") auto
  let ?e = "fst (vehicle_present ops cfg bc t v0 vs)"
  let ?tb = "track_bags upd (tracker bc) ?e (bags_of t)"
  let ?s' = "count_clusters (snd (snd ?tb)) (clusters_of t)"
  note p = process_frame_vehicle[OF c, of ops cfg upd fresh bc]
  note e = vehicle_present_new[OF n, of ops cfg t v0 vs]
  have 1: "session (snd (snd (process_frame ops cfg upd fresh bc t))) = Some ?s'"
    unfolding p by (simp add: record_and_count_Some)
  have 2: "unique_bag_ids ?s' = tracked_ids (fst (snd (process_frame ops cfg upd fresh bc t)))"
    unfolding p
    by (simp add: record_and_count_Some count_clusters_keeps track_bags_ids e
        tracked_ids_append tracked_ids_write tracked_ids_vehicle_present)
  have cl: "0 \<le> bag_cluster_count (snd (snd ?tb))" and pk: "0 \<le> peak_bags_in_frame ?e"
    by (simp_all add: track_bags_keeps e)
  have 3: "bag_cluster_count ?s' = int (length (clusters_of t))"
    using count_clusters_max[OF cl, of "clusters_of t"] by (simp add: track_bags_keeps e)
  have "peak_bags_in_frame ?s' = max (peak_bags_in_frame ?e) (int (length (bags_of t)))"
    using track_bags_peak[OF pk, of upd "tracker bc" "bags_of t"]
    by (simp add: count_clusters_keeps)
  with 3 have 4: "counts_nonneg ?s'" by (simp add: counts_nonneg_def e)
  from 1 2 3 4 show ?thesis by blast
qed

lemma run_live:
  assumes "session bc = Some s" and "counts_nonneg s"
    and "completions (fst (run ops cfg upd fresh bc ts)) = 0"
  shows "\<exists>s'. session (snd (snd (run ops cfg upd fresh bc ts))) = Some s' \<and>
     unique_bag_ids s' = unique_bag_ids s |\<union>| tracked_ids (fst (snd (run ops cfg upd fresh bc ts))) \<and>
     bag_cluster_count s' = fold max (cluster_counts ts) (bag_cluster_count s)"
  using assms
proof (induction ts arbitrary: bc s)
  case Nil
  then show ?case by (simp add: cluster_counts_def)
next
  case (Cons t ts)
  obtain out acts bc1 where p: "process_frame ops cfg upd fresh bc t = (out, acts, bc1)"
    by (cases "process_frame ops cfg upd fresh bc t") auto
  obtain outs acts' bc2 where r: "run ops cfg upd fresh bc1 ts = (outs, acts', bc2)"
    by (cases "run ops cfg upd fresh bc1 ts") auto
  from Cons.prems(3) p r have o: "out = None" and c: "completions outs = 0"
    by (simp_all add: completions_Cons)
  from o p emits_iff[of ops cfg upd fresh bc t] have nf: "\<not> finalizing_tick ops cfg bc t" by simp
  from live_tick_update[OF Cons.prems(1) nf Cons.prems(2), of upd fresh] p
  obtain s1 where s1: "session bc1 = Some s1"
    and i1: "unique_bag_ids s1 = unique_bag_ids s |\<union>| tracked_ids acts"
    and c1: "bag_cluster_count s1 = max (bag_cluster_count s) (int (length (clusters_of t)))"
    and ok1: "counts_nonneg s1"
    by auto
  from c r have "completions (fst (run ops cfg upd fresh bc1 ts)) = 0" by simp
  from Cons.IH[OF s1 ok1 this] r
  obtain s2 where s2: "session bc2 = Some s2"
    and i2: "unique_bag_ids s2 = unique_bag_ids s1 |\<union>| tracked_ids acts'"
    and c2: "bag_cluster_count s2 = fold max (cluster_counts ts) (bag_cluster_count s1)"
    by auto
  have "bag_cluster_count s2 = fold max (cluster_counts (t # ts)) (bag_cluster_count s)"
    using c2 c1 by (simp add: cluster_counts_def max.commute)
  moreover have "unique_bag_ids s2 = unique_bag_ids s |\<union>| tracked_ids (acts @ acts')"
    using i1 i2 by (simp add: tracked_ids_append funion_assoc)
  ultimately show ?case using s2 by (simp add: p r)
qed

lemma run_visit:
  assumes n: "session bc = None" and v: "vehicles_of t \<noteq> []"
    and c: "completions (fst (run ops cfg upd fresh bc (t # ts))) = 0"
  shows "\<exists>s'. session (snd (snd (run ops cfg upd fresh bc (t # ts)))) = Some s' \<and>
     unique_bag_ids s' = tracked_ids (fst (snd (run ops cfg upd fresh bc (t # ts)))) \<and>
     bag_cluster_count s' = fold max (cluster_counts (t # ts)) 0"
proof -
  obtain out acts bc1 where p: "process_frame ops cfg upd fresh bc t = (out, acts, bc1)"
    by (cases "process_frame ops cfg upd fresh bc t") auto
  obtain outs acts' bc2 where r: "run ops cfg upd fresh bc1 ts = (outs, acts', bc2)"
    by (cases "run ops cfg upd fresh bc1 ts") auto
  from creation_tick[OF n v, of ops cfg upd fresh] p
  obtain s1 where s1: "session bc1 = Some s1"
    and i1: "unique_bag_ids s1 = tracked_ids acts"
    and c1: "bag_cluster_count s1 = int (length (clusters_of t))"
    and ok1: "counts_nonneg s1"
    by auto
  from c p r have "completions (fst (run ops cfg upd fresh bc1 ts)) = 0"
    by (simp add: completions_Cons)
  from run_live[OF s1 ok1 this] r
  obtain s2 where s2: "session bc2 = Some s2"
    and i2: "unique_bag_ids s2 = unique_bag_ids s1 |\<union>| tracked_ids acts'"
    and c2: "bag_cluster_count s2 = fold max (cluster_counts ts) (bag_cluster_count s1)"
    by auto
  have "bag_cluster_count s2 = fold max (cluster_counts (t # ts)) 0"
    using c2 c1 by (simp add: cluster_counts_def)
  moreover have "unique_bag_ids s2 = tracked_ids (acts @ acts')"
    using i1 i2 by (simp add: tracked_ids_append)
  ultimately show ?thesis using s2 by (simp add: p r)
qed

lemma fold_max_Cons: "fold max (c # cs) (0::int) = max c (fold max cs 0)"
proof -
  have "fold max (c # cs) 0 = Max (set (0 # c # cs))"
    by (simp only: Max.set_eq_fold)
  also have "set (0 # c # cs) = insert c (set (0 # cs))" by auto
  also have "Max (insert c (set (0 # cs))) = max c (Max (set (0 # cs)))"
    by (rule Max_insert) simp_all
  also have "Max (set (0 # cs)) = fold max cs 0"
    by (simp only: Max.set_eq_fold)
  finally show ?thesis .
qed

lemma fold_max_bounds:
  "\<forall>c \<in> set cs. 0 \<le> c \<Longrightarrow> 0 \<le> fold max cs (0::int) \<and> fold max cs 0 \<le> sum_list cs"
proof (induction cs)
  case Nil
  show ?case by simp
next
  case (Cons c cs)
  then have "0 \<le> c" "0 \<le> fold max cs 0" "fold max cs 0 \<le> sum_list cs" by simp_all
  then show ?case unfolding fold_max_Cons by simp
qed

lemma sum_list_zero_iff:
  "\<forall>c \<in> set cs. (0::int) \<le> c \<Longrightarrow> sum_list cs = 0 \<longleftrightarrow> filter (\<lambda>c. c \<noteq> 0) cs = []"
proof (induction cs)
  case Nil
  then show ?case by simp
next
  case (Cons c cs)
  then have "0 \<le> c" "0 \<le> sum_list cs" by (simp_all add: sum_list_nonneg)
  with Cons show ?case by auto
qed

lemma fold_max_eq_sum:
  "\<forall>c \<in> set cs. 0 \<le> c \<Longrightarrow>
     fold max cs (0::int) = sum_list cs \<longleftrightarrow> length (filter (\<lambda>c. c \<noteq> 0) cs) \<le> 1"
proof (induction cs)
  case Nil
  show ?case by simp
next
  case (Cons c cs)
  then have nn: "\<forall>c \<in> set cs. 0 \<le> c" and c: "0 \<le> c" by simp_all
  note b = fold_max_bounds[OF nn]
  note z = sum_list_zero_iff[OF nn]
  note ih = Cons.IH[OF nn]
  show ?case
  proof (cases "c = 0")
    case True
    with b ih show ?thesis unfolding fold_max_Cons by simp
  next
    case False
    with c have pos: "0 < c" by simp
    have "max c (fold max cs 0) = c + sum_list cs \<longleftrightarrow> sum_list cs = 0"
      using pos b by (auto simp: max_def)
    with z False show ?thesis unfolding fold_max_Cons by simp
  qed
qed

lemma cluster_counts_nonneg: "\<forall>c \<in> set (cluster_counts ts). 0 \<le> c"
  by (simp add: cluster_counts_def)

section \<open>The time the vehicle was last seen\<close>

lemma track_bags_times:
  "last_vehicle_seen (snd (snd (track_bags upd tr s bags))) = last_vehicle_seen s"
  by (simp add: track_bags_def Let_def split: prod.splits option.splits)

lemma count_clusters_times:
  "last_vehicle_seen (count_clusters s cs) = last_vehicle_seen s"
  by (simp add: count_clusters_def Let_def)

lemma record_and_count_last_seen:
  "session (snd (record_and_count upd bc (Some s) t)) = Some s' \<Longrightarrow>
     last_vehicle_seen s' = last_vehicle_seen s"
  by (auto simp: record_and_count_Some track_bags_times count_clusters_times)

lemma vehicle_present_last_seen:
  "last_vehicle_seen (fst (vehicle_present ops cfg bc t v vs)) = env_now t"
  by (simp add: vehicle_present_def start_recording_def Let_def split: option.splits prod.splits)

lemma last_seen_after:
  "map_option last_vehicle_seen (session (snd (snd (process_frame ops cfg upd fresh bc t)))) =
     (if vehicles_of t \<noteq> [] then Some (env_now t)
      else if finalizing_tick ops cfg bc t then None
      else map_option last_vehicle_seen (session bc))"
proof (cases "vehicles_of t")
  case Nil
  show ?thesis
  proof (cases "session bc")
    case None
    with Nil show ?thesis by (simp add: process_frame_idle finalizing_tick_def)
  next
    case (Some s)
    show ?thesis
    proof (cases "finalizing_tick ops cfg bc t")
      case True
      then show ?thesis using Nil by (simp add: process_frame_finalizing[OF True Some])
    next
      case False
      obtain s' where s': "session (snd (record_and_count upd bc (Some s) t)) = Some s'"
        using record_and_count_session[of upd bc s t] by blast
      from record_and_count_last_seen[OF s'] s' Nil Some False show ?thesis
        by (simp add: process_frame_waiting[OF Nil Some False])
    qed
  qed
next
  case (Cons v vs)
  let ?e = "fst (vehicle_present ops cfg bc t v vs)"
  obtain s' where s': "session (snd (record_and_count upd bc (Some ?e) t)) = Some s'"
    using record_and_count_session[of upd bc ?e t] by blast
  from record_and_count_last_seen[OF s'] s' Cons show ?thesis
    by (simp add: process_frame_vehicle[OF Cons] vehicle_present_last_seen)
qed

lemma run_emissions:
  "map (\<lambda>out. out \<noteq> None) (fst (run ops cfg upd fresh bc ts)) =
     spec_completions ops cfg (map_option last_vehicle_seen (session bc)) ts"
proof (induction ts arbitrary: bc)
  case Nil
  show ?case by simp
next
  case (Cons t ts)
  obtain out acts bc1 where p: "process_frame ops cfg upd fresh bc t = (out, acts, bc1)"
    by (cases "process_frame ops cfg upd fresh bc t") auto
  obtain outs acts' bc2 where r: "run ops cfg upd fresh bc1 ts = (outs, acts', bc2)"
    by (cases "run ops cfg upd fresh bc1 ts") auto
  from Cons.IH[of bc1] r
  have ih: "map (\<lambda>out. out \<noteq> None) outs =
      spec_completions ops cfg (map_option last_vehicle_seen (session bc1)) ts" by simp
  from emits_iff[of ops cfg upd fresh bc t] p
  have e: "out \<noteq> None \<longleftrightarrow> finalizing_tick ops cfg bc t" by simp
  from last_seen_after[of ops cfg upd fresh bc t] p
  have l: "map_option last_vehicle_seen (session bc1) =
     (if vehicles_of t \<noteq> [] then Some (env_now t)
      else if finalizing_tick ops cfg bc t then None
      else map_option last_vehicle_seen (session bc))" by simp
  have v: "(\<exists>d \<in> set (detections t). class_id d = CLASS_VEHICLE) \<longleftrightarrow> vehicles_of t \<noteq> []"
    by (simp add: vehicles_of_nonempty)
  note ih' = ih[unfolded l]
  show ?case
  proof (cases "vehicles_of t = []")
    case False
    then have "\<not> finalizing_tick ops cfg bc t" by (simp add: finalizing_tick_def)
    with False e ih' v show ?thesis by (simp add: p r)
  next
    case True
    show ?thesis
    proof (cases "session bc")
      case None
      then have "\<not> finalizing_tick ops cfg bc t" by (simp add: finalizing_tick_def)
      with True None e ih' v show ?thesis by (simp add: p r)
    next
      case (Some s)
      then have f: "finalizing_tick ops cfg bc t \<longleftrightarrow>
          fsub ops (env_now t) (last_vehicle_seen s) > of_int (VEHICLE_ABSENCE_TIMEOUT cfg)"
        using True by (simp add: finalizing_tick_def)
      with True Some e ih' v show ?thesis by (simp add: p r)
    qed
  qed
qed

lemma run_last_seen:
  "completions (fst (run ops cfg upd fresh bc ts)) = 0 \<Longrightarrow>
   map_option last_vehicle_seen (session (snd (snd (run ops cfg upd fresh bc ts)))) =
     (case last_vehicle_time ts of
        Some x \<Rightarrow> Some x
      | None \<Rightarrow> map_option last_vehicle_seen (session bc))"
proof (induction ts arbitrary: bc)
  case Nil
  show ?case by simp
next
  case (Cons t ts)
  obtain out acts bc1 where p: "process_frame ops cfg upd fresh bc t = (out, acts, bc1)"
    by (cases "process_frame ops cfg upd fresh bc t") auto
  obtain outs acts' bc2 where r: "run ops cfg upd fresh bc1 ts = (outs, acts', bc2)"
    by (cases "run ops cfg upd fresh bc1 ts") auto
  from Cons.prems p r have o: "out = None" and c: "completions outs = 0"
    by (simp_all add: completions_Cons)
  from o p emits_iff[of ops cfg upd fresh bc t] have nf: "\<not> finalizing_tick ops cfg bc t" by simp
  from c r have "completions (fst (run ops cfg upd fresh bc1 ts)) = 0" by simp
  from Cons.IH[OF this] r
  have ih: "map_option last_vehicle_seen (session bc2) =
     (case last_vehicle_time ts of
        Some x \<Rightarrow> Some x
      | None \<Rightarrow> map_option last_vehicle_seen (session bc1))" by simp
  from last_seen_after[of ops cfg upd fresh bc t] p nf
  have l: "map_option last_vehicle_seen (session bc1) =
     (if vehicles_of t \<noteq> [] then Some (env_now t)
      else map_option last_vehicle_seen (session bc))" by simp
  show ?case using ih l by (simp add: p r split: option.splits)
qed

lemma kept_session_start:
  assumes s: "session bc = Some s" and nf: "\<not> finalizing_tick ops cfg bc t"
  shows "\<exists>s'. session (snd (snd (process_frame ops cfg upd fresh bc t))) = Some s' \<and>
     started_at s' = started_at s"
  unfolding process_frame_live[OF s nf]
  by (simp add: record_and_count_Some count_clusters_keeps track_bags_keeps entering_def
      split: list.splits)

lemma run_started_at:
  assumes "session bc = Some s" and "completions (fst (run ops cfg upd fresh bc ts)) = 0"
  shows "\<exists>s'. session (snd (snd (run ops cfg upd fresh bc ts))) = Some s' \<and>
     started_at s' = started_at s"
  using assms
proof (induction ts arbitrary: bc s)
  case Nil
  then show ?case by simp
next
  case (Cons t ts)
  obtain out acts bc1 where p: "process_frame ops cfg upd fresh bc t = (out, acts, bc1)"
    by (cases "process_frame ops cfg upd fresh bc t") auto
  obtain outs acts' bc2 where r: "run ops cfg upd fresh bc1 ts = (outs, acts', bc2)"
    by (cases "run ops cfg upd fresh bc1 ts") auto
  from Cons.prems(2) p r have o: "out = None" and c: "completions outs = 0"
    by (simp_all add: completions_Cons)
  from o p emits_iff[of ops cfg upd fresh bc t] have nf: "\<not> finalizing_tick ops cfg bc t" by simp
  from kept_session_start[OF Cons.prems(1) nf, of upd fresh] p
  obtain s1 where s1: "session bc1 = Some s1" "started_at s1 = started_at s" by auto
  from c r have "completions (fst (run ops cfg upd fresh bc1 ts)) = 0" by simp
  from Cons.IH[OF s1(1) this] r s1(2) show ?case by (simp add: p r)
qed

lemma run_visit_times:
  assumes n: "session bc = None" and v: "vehicles_of t \<noteq> []"
    and c: "completions (fst (run ops cfg upd fresh bc (t # ts))) = 0"
  shows "\<exists>s' x. session (snd (snd (run ops cfg upd fresh bc (t # ts)))) = Some s' \<and>
     started_at s' = env_clock t \<and>
     last_vehicle_time (t # ts) = Some x \<and> last_vehicle_seen s' = x"
proof -
  obtain out acts bc1 where p: "process_frame ops cfg upd fresh bc t = (out, acts, bc1)"
    by (cases "process_frame ops cfg upd fresh bc t") auto
  obtain outs acts' bc2 where r: "run ops cfg upd fresh bc1 ts = (outs, acts', bc2)"
    by (cases "run ops cfg upd fresh bc1 ts") auto
  from v obtain v0 vs where cv: "vehicles_of t = v0 # vs" by (cases "vehicles_of t") auto
  from p have "session bc1 = session (snd (record_and_count upd bc
        (Some (fst (vehicle_present ops cfg bc t v0 vs))) t))"
    by (simp add: process_frame_vehicle[OF cv])
  with record_and_count_session[of upd bc "fst (vehicle_present ops cfg bc t v0 vs)" t]
  obtain s1 where s1: "session bc1 = Some s1"
    and s1': "session (snd (record_and_count upd bc
        (Some (fst (vehicle_present ops cfg bc t v0 vs))) t)) = Some s1" by auto
  from record_and_count_keeps[OF s1'] vehicle_present_new[OF n, of ops cfg t v0 vs]
  have st: "started_at s1 = env_clock t" by simp
  from c p r have c': "completions (fst (run ops cfg upd fresh bc1 ts)) = 0"
    by (simp add: completions_Cons)
  from run_started_at[OF s1 c'] r st
  obtain s2 where s2: "session bc2 = Some s2" "started_at s2 = env_clock t" by auto
  from run_last_seen[OF c] p r s2(1) n
  have "Some (last_vehicle_seen s2) =
     (case last_vehicle_time (t # ts) of Some x \<Rightarrow> Some x | None \<Rightarrow> None)"
    by (simp split: option.splits)
  then have "last_vehicle_time (t # ts) = Some (last_vehicle_seen s2)"
    by (simp split: option.splits)
  with s2 show ?thesis by (simp add: p r)
qed

section \<open>Repeated open failures in the camera loop\<close>

lemma read_loop_failed_open:
  "read_loop ops cam (failed_open # obs) =
     (fst (read_loop ops (cam\<lparr>consecutive_failures := consecutive_failures cam + 1\<rparr>) obs),
      WarnOpenFailed (consecutive_failures cam + 1)
          (min (reconnect_delay cam * (consecutive_failures cam + 1)) 60) #
        Sleep (of_int (min (reconnect_delay cam * (consecutive_failures cam + 1)) 60)) #
        fst (snd (read_loop ops (cam\<lparr>consecutive_failures := consecutive_failures cam + 1\<rparr>) obs)),
      snd (snd (read_loop ops (cam\<lparr>consecutive_failures := consecutive_failures cam + 1\<rparr>) obs)))"
  by (simp add: failed_open_def backoff_delay_def Let_def split: prod.splits)

lemma upt_shift: "[1..<Suc (Suc n)] = 1 # map Suc [1..<Suc n]"
  by (simp add: map_Suc_upt upt_conv_Cons del: upt_Suc)

lemma read_loop_failures_status:
  "snd (snd (read_loop ops cam (replicate n failed_open))) = Looping"
  by (induction n arbitrary: cam) (simp_all add: read_loop_failed_open del: read_loop.simps(2))

lemma read_loop_failures_counter:
  "consecutive_failures (fst (read_loop ops cam (replicate n failed_open))) =
     consecutive_failures cam + int n"
  by (induction n arbitrary: cam) (simp_all add: read_loop_failed_open del: read_loop.simps(2))

lemma read_loop_failures_sleeps:
  "sleeps (fst (snd (read_loop ops cam (replicate n failed_open)))) =
     map (\<lambda>k. of_int (min (reconnect_delay cam * (consecutive_failures cam + int k)) 60))
       [1..<Suc n]"
proof (induction n arbitrary: cam)
  case 0
  show ?case by simp
next
  case (Suc n)
  let ?cam1 = "cam\<lparr>consecutive_failures := consecutive_failures cam + 1\<rparr>"
  have "sleeps (fst (snd (read_loop ops cam (replicate (Suc n) failed_open)))) =
      of_int (min (reconnect_delay cam * (consecutive_failures cam + 1)) 60) #
        sleeps (fst (snd (read_loop ops ?cam1 (replicate n failed_open))))"
    by (simp add: read_loop_failed_open del: read_loop.simps(2))
  also have "sleeps (fst (snd (read_loop ops ?cam1 (replicate n failed_open)))) =
      map (\<lambda>k. of_int (min (reconnect_delay cam * (consecutive_failures cam + int (Suc k))) 60))
       [1..<Suc n]"
    unfolding Suc.IH[of ?cam1] by (simp add: ac_simps)
  finally show ?case
    unfolding upt_shift[of n] by (simp add: comp_def del: upt_Suc)
qed

lemma read_frames_left:
  "snd (snd (read_frames ops i l fr reads)) = snd (snd (read_frames ops i l fr' reads))"
proof (induction reads arbitrary: l fr fr')
  case Nil
  show ?case by simp
next
  case (Cons ob reads)
  show ?case
    by (simp add: case_prod_beta Cons.IH[of l fr fr'] split: option.splits)
qed

lemma backoff_sleeps_skip:
  "\<forall>k d. WarnOpenFailed k d \<notin> set xs \<Longrightarrow> backoff_sleeps (xs @ ys) = backoff_sleeps ys"
proof (induction xs)
  case Nil
  show ?case by simp
next
  case (Cons a xs)
  then show ?case by (cases a) auto
qed

lemma read_frames_no_warning:
  "WarnOpenFailed k d \<notin> set (fst (snd (read_frames ops i l fr reads)))"
  by (induction reads arbitrary: l fr) (simp_all add: case_prod_beta split: option.splits)

lemma read_loop_step_failed:
  assumes "lo_running ob" and "lo_open ob = OpenFailed"
  shows "read_loop ops cam (ob # obs) =
     (fst (read_loop ops (cam\<lparr>consecutive_failures := consecutive_failures cam + 1\<rparr>) obs),
      WarnOpenFailed (consecutive_failures cam + 1)
          (min (reconnect_delay cam * (consecutive_failures cam + 1)) 60) #
        Sleep (of_int (min (reconnect_delay cam * (consecutive_failures cam + 1)) 60)) #
        fst (snd (read_loop ops (cam\<lparr>consecutive_failures := consecutive_failures cam + 1\<rparr>) obs)),
      snd (snd (read_loop ops (cam\<lparr>consecutive_failures := consecutive_failures cam + 1\<rparr>) obs)))"
  using assms by (simp add: backoff_delay_def Let_def split: prod.splits)

lemma read_loop_step_opened:
  assumes "lo_running ob" and "lo_open ob = Opened reads running_after"
    and "target_fps cam \<noteq> 0"
    and "snd (snd (read_frames ops (fdiv ops 1 (of_int (target_fps cam))) 0 (cam_frame cam) reads))"
  shows "read_loop ops cam (ob # obs) =
     (fst (read_loop ops
        (cam\<lparr>consecutive_failures := 0,
             cam_frame := fst (read_frames ops (fdiv ops 1 (of_int (target_fps cam))) 0
                                (cam_frame cam) reads)\<rparr>) obs),
      (InfoConnected #
         fst (snd (read_frames ops (fdiv ops 1 (of_int (target_fps cam))) 0 (cam_frame cam) reads)) @
         ReleaseCapture # (if running_after then [Sleep (of_int (reconnect_delay cam))] else [])) @
        fst (snd (read_loop ops
          (cam\<lparr>consecutive_failures := 0,
               cam_frame := fst (read_frames ops (fdiv ops 1 (of_int (target_fps cam))) 0
                                  (cam_frame cam) reads)\<rparr>) obs)),
      snd (snd (read_loop ops
        (cam\<lparr>consecutive_failures := 0,
             cam_frame := fst (read_frames ops (fdiv ops 1 (of_int (target_fps cam))) 0
                                (cam_frame cam) reads)\<rparr>) obs)))"
  using assms by (simp add: Let_def case_prod_beta)

lemma complete_pass_fps:
  "target_fps cam' = target_fps cam \<Longrightarrow> complete_pass ops cam' ob = complete_pass ops cam ob"
  by (simp add: complete_pass_def split: open_obs.splits)

lemma read_loop_streaks:
  assumes "target_fps cam \<noteq> 0" and "\<forall>ob \<in> set obs. complete_pass ops cam ob"
  shows "backoff_sleeps (fst (snd (read_loop ops cam obs))) =
           map of_int (streak_delays (reconnect_delay cam) 60 (consecutive_failures cam)
             (open_outcomes obs)) \<and>
         snd (snd (read_loop ops cam obs)) = Looping"
  using assms
proof (induction obs arbitrary: cam)
  case Nil
  show ?case by (simp add: open_outcomes_def)
next
  case (Cons ob obs)
  from Cons.prems(2) have cp: "complete_pass ops cam ob"
    and rest: "\<forall>ob \<in> set obs. complete_pass ops cam ob" by simp_all
  from cp have run: "lo_running ob" by (simp add: complete_pass_def)
  show ?case
  proof (cases "lo_open ob")
    case OpenFailed
    let ?cam1 = "cam\<lparr>consecutive_failures := consecutive_failures cam + 1\<rparr>"
    have "\<forall>ob \<in> set obs. complete_pass ops ?cam1 ob"
      using rest by (simp add: complete_pass_fps[of ?cam1 cam])
    from Cons.IH[of ?cam1, OF _ this] Cons.prems(1)
    have ih: "backoff_sleeps (fst (snd (read_loop ops ?cam1 obs))) =
           map of_int (streak_delays (reconnect_delay cam) 60 (consecutive_failures cam + 1)
             (open_outcomes obs))"
      "snd (snd (read_loop ops ?cam1 obs)) = Looping" by simp_all
    show ?thesis
      unfolding read_loop_step_failed[OF run OpenFailed]
      using ih OpenFailed by (simp add: open_outcomes_def)
  next
    case (Opened reads running_after)
    let ?i = "fdiv ops 1 (of_int (target_fps cam))"
    let ?rf = "read_frames ops ?i 0 (cam_frame cam) reads"
    let ?cam2 = "cam\<lparr>consecutive_failures := 0, cam_frame := fst ?rf\<rparr>"
    from cp Opened have "snd (snd (read_frames ops ?i 0 None reads))"
      by (simp add: complete_pass_def)
    then have left: "snd (snd ?rf)"
      using read_frames_left[of ops ?i 0 "cam_frame cam" reads None] by simp
    have "\<forall>ob \<in> set obs. complete_pass ops ?cam2 ob"
      using rest by (simp add: complete_pass_fps[of ?cam2 cam])
    from Cons.IH[of ?cam2, OF _ this] Cons.prems(1)
    have ih: "backoff_sleeps (fst (snd (read_loop ops ?cam2 obs))) =
           map of_int (streak_delays (reconnect_delay cam) 60 0 (open_outcomes obs))"
      "snd (snd (read_loop ops ?cam2 obs)) = Looping" by simp_all
    have nw: "\<forall>k d. WarnOpenFailed k d \<notin> set (InfoConnected # fst (snd ?rf) @
         ReleaseCapture # (if running_after then [Sleep (of_int (reconnect_delay cam))] else []))"
      using read_frames_no_warning[of _ _ ops ?i 0 "cam_frame cam" reads] by simp
    show ?thesis
      unfolding read_loop_step_opened[OF run Opened Cons.prems(1) left]
      using ih Opened backoff_sleeps_skip[OF nw] by (simp add: open_outcomes_def)
  qed
qed

lemma streak_delays_failures:
  "streak_delays b m k (replicate n False) = map (\<lambda>j. min (b * (k + int j)) m) [1..<Suc n]"
proof (induction n arbitrary: k)
  case 0
  show ?case by simp
next
  case (Suc n)
  have "streak_delays b m k (replicate (Suc n) False) =
      min (b * (k + 1)) m # streak_delays b m (k + 1) (replicate n False)" by simp
  also have "streak_delays b m (k + 1) (replicate n False) =
      map (\<lambda>j. min (b * (k + int (Suc j))) m) [1..<Suc n]"
    unfolding Suc.IH by (simp add: ac_simps)
  finally show ?case
    unfolding upt_shift[of n] by (simp add: comp_def del: upt_Suc)
qed

section \<open>Evaluating the examples\<close>

lemmas example_defs =
  example_live_counter_def example_visit_def example_vehicle_def example_bag_def example_cluster_def
  example_tick_def example_detection_def example_config_def
     example_tracker_def example_counter_def new_counter_def process_frame_def vehicles_of_def bags_of_def clusters_of_def
     CLASS_VEHICLE_def CLASS_POTATO_BAG_def CLASS_BAG_CLUSTER_def vehicle_present_def new_session_def start_recording_def
     os_path_join_def record_and_count_def write_frame_def track_bags_def to_sv_def count_clusters_def
     stop_recording_def to_dict_def exact_round_def example_float_ops_def duration_seconds_def bag_count_def estimated_total_def avg_vehicle_confidence_def Let_def fcard_finsert_if
     finalizing_tick_def

lemma example_live:
  "session example_live_counter = Some example_live_session"
  by (simp add: example_defs example_live_session_def) auto

lemma example_completed:
  "fst (process_frame example_float_ops example_config example_tracker 0 example_live_counter (example_tick [] 132))
     = Some example_completed"
  by (simp add: example_defs example_completed_def)

lemma example_visit_ids:
  "tracked_ids (fst (snd (run example_float_ops example_config example_tracker 0 example_counter example_visit))) =
     {|1, 2, 3, 4|}"
  apply (simp add: example_defs)
  apply (simp add: fset_eq_iff)
  apply blast
  done

lemma example_cluster_counts: "cluster_counts example_cluster_visit = [2, 5, 3, 1]"
  by (simp add: example_cluster_visit_def cluster_counts_def example_defs)

lemma example_absences_spec:
  "spec_completions example_float_ops example_config None example_absences =
     [False, False, False, False, True, False]"
  by (simp add: example_absences_def example_defs)

section \<open>Claims about the counter\<close>

text \<open>
  Claim C1. A call of \<^verbatim>\<open>process_frame\<close> returns a dictionary exactly when no
  vehicle is in the tick, a session is present and the time elapsed since the vehicle was
  last seen, as the code computes it, exceeds the absence timeout. The dictionary is then
  built from the session marked as ended, the counter is left without a session and with
  a new tracker, and the next call returns nothing whatever its tick. Over any run, the
  dictionaries returned and the session still present at the end add up to the sessions
  constructed during the run and the session present at its start. The time last seen is
  the time of the call whenever the tick has a vehicle, and is kept by a call without
  one that does not finalize. Hence the calls of a run that return a dictionary are those
  of the state machine of the design run on the same ticks: for a new counter they are
  fixed by the ticks alone, and each visit is completed at the first tick whose distance
  from the last tick with a vehicle exceeds the timeout.
\<close>

theorem completed_visit_emitted_exactly_once:
  "(fst (process_frame ops cfg upd fresh bc t) \<noteq> None \<longleftrightarrow> finalizing_tick ops cfg bc t) \<and>
    (finalizing_tick ops cfg bc t \<longrightarrow>
       (\<exists>s. session bc = Some s \<and>
          fst (process_frame ops cfg upd fresh bc t) =
            Some (to_dict ops (fst (stop_recording (s\<lparr>ended := True\<rparr>) (env_file_size t)))
                    (env_clock t))) \<and>
       session (snd (snd (process_frame ops cfg upd fresh bc t))) = None \<and>
       tracker (snd (snd (process_frame ops cfg upd fresh bc t))) = fresh \<and>
       fst (process_frame ops cfg upd fresh (snd (snd (process_frame ops cfg upd fresh bc t))) t')
         = None) \<and>
    completions (fst (run ops cfg upd fresh bc ts)) + live (snd (snd (run ops cfg upd fresh bc ts))) =
      visits_started ops cfg upd fresh bc ts + live bc \<and>
    map_option last_vehicle_seen (session (snd (snd (process_frame ops cfg upd fresh bc t)))) =
      (if \<exists>d \<in> set (detections t). class_id d = CLASS_VEHICLE then Some (env_now t)
       else if finalizing_tick ops cfg bc t then None
       else map_option last_vehicle_seen (session bc)) \<and>
    emissions (fst (run ops cfg upd fresh bc ts)) =
      spec_completions ops cfg (map_option last_vehicle_seen (session bc)) ts \<and>
    emissions (fst (run ops cfg upd fresh (new_counter fresh g) ts)) =
      spec_completions ops cfg None ts"
proof -
  let ?bc' = "snd (snd (process_frame ops cfg upd fresh bc t))"
  have a: "fst (process_frame ops cfg upd fresh bc t) \<noteq> None \<longleftrightarrow> finalizing_tick ops cfg bc t"
    by (rule emits_iff)
  have b: "(\<exists>s. session bc = Some s \<and>
          fst (process_frame ops cfg upd fresh bc t) =
            Some (to_dict ops (fst (stop_recording (s\<lparr>ended := True\<rparr>) (env_file_size t)))
                    (env_clock t))) \<and>
       session ?bc' = None \<and> tracker ?bc' = fresh \<and>
       fst (process_frame ops cfg upd fresh ?bc' t') = None"
    if f: "finalizing_tick ops cfg bc t"
  proof -
    from f obtain s where s: "session bc = Some s"
      by (auto simp: finalizing_tick_def split: option.splits)
    note p = process_frame_finalizing[OF f s, of upd fresh]
    have n: "session ?bc' = None" unfolding p by simp
    then have "\<not> finalizing_tick ops cfg ?bc' t'"
      by (simp add: finalizing_tick_def)
    then have "fst (process_frame ops cfg upd fresh ?bc' t') = None"
      using emits_iff[of ops cfg upd fresh ?bc' t'] by simp
    moreover have "tracker ?bc' = fresh" unfolding p by simp
    moreover have "fst (process_frame ops cfg upd fresh bc t) =
       Some (to_dict ops (fst (stop_recording (s\<lparr>ended := True\<rparr>) (env_file_size t)))
                       (env_clock t))" unfolding p by simp
    ultimately show ?thesis using s n by simp
  qed
  have c: "map_option last_vehicle_seen (session ?bc') =
      (if \<exists>d \<in> set (detections t). class_id d = CLASS_VEHICLE then Some (env_now t)
       else if finalizing_tick ops cfg bc t then None
       else map_option last_vehicle_seen (session bc))"
    unfolding last_seen_after vehicles_of_nonempty by (rule refl)
  have d: "emissions (fst (run ops cfg upd fresh bc ts)) =
      spec_completions ops cfg (map_option last_vehicle_seen (session bc)) ts" for bc
    unfolding emissions_def by (rule run_emissions)
  have e: "emissions (fst (run ops cfg upd fresh (new_counter fresh g) ts)) =
      spec_completions ops cfg None ts"
    unfolding d by (simp add: new_counter_def)
  from a b c d[of bc] e run_counts[of ops cfg upd fresh bc ts] show ?thesis by blast
qed

theorem completed_visit_emitted_exactly_once_witness:
  "finalizing_tick example_float_ops example_config example_live_counter (example_tick [] 132) \<and>
   fst (process_frame example_float_ops example_config example_tracker 0 example_live_counter
     (example_tick [] 132)) \<noteq> None \<and>
   session (snd (snd (process_frame example_float_ops example_config example_tracker 0
     example_live_counter (example_tick [] 132)))) = None \<and>
   fst (process_frame example_float_ops example_config example_tracker 0 example_live_counter
     (example_tick [] 110)) = None \<and>
   emissions (fst (run example_float_ops example_config example_tracker 0
     (new_counter 0 ''gate1'') example_absences)) = [False, False, False, False, True, False] \<and>
   completions (fst (run example_float_ops example_config example_tracker 0 example_counter
       (example_visit @ [example_tick [] 110, example_tick [] 132, example_tick [] 200]))) = 1"
proof -
  have f: "finalizing_tick example_float_ops example_config example_live_counter
      (example_tick [] 132)"
    by (simp add: example_defs)
  have g: "\<not> finalizing_tick example_float_ops example_config example_live_counter
      (example_tick [] 110)"
    by (simp add: example_defs)
  have v: "visits_started example_float_ops example_config example_tracker 0 example_counter
       (example_visit @ [example_tick [] 110, example_tick [] 132, example_tick [] 200]) = 1"
    by (simp add: example_defs)
  have l: "live example_counter = 0"
    "live (snd (snd (run example_float_ops example_config example_tracker 0 example_counter
       (example_visit @ [example_tick [] 110, example_tick [] 132, example_tick [] 200])))) = 0"
    by (simp_all add: example_defs live_def)
  note t1 = completed_visit_emitted_exactly_once[where ops = example_float_ops
      and cfg = example_config and upd = example_tracker and fresh = 0
      and bc = example_live_counter and t = "example_tick [] 132" and t' = "example_tick [] 200"
      and ts = example_absences and g = "''gate1''"]
  note t2 = completed_visit_emitted_exactly_once[where ops = example_float_ops
      and cfg = example_config and upd = example_tracker and fresh = 0
      and bc = example_live_counter and t = "example_tick [] 110" and t' = "example_tick [] 200"
      and ts = "[]" and g = "''gate1''"]
  note t3 = completed_visit_emitted_exactly_once[where ops = example_float_ops
      and cfg = example_config and upd = example_tracker and fresh = 0
      and bc = example_counter and t = "example_tick [] 110" and t' = "example_tick [] 200"
      and ts = "example_visit @ [example_tick [] 110, example_tick [] 132, example_tick [] 200]"
      and g = "''gate1''"]
  from t1 f have 1: "fst (process_frame example_float_ops example_config example_tracker 0
      example_live_counter (example_tick [] 132)) \<noteq> None"
    "session (snd (snd (process_frame example_float_ops example_config example_tracker 0
     example_live_counter (example_tick [] 132)))) = None"
    "emissions (fst (run example_float_ops example_config example_tracker 0
     (new_counter 0 ''gate1'') example_absences)) =
       spec_completions example_float_ops example_config None example_absences"
    by blast+
  from t2 g have 2: "fst (process_frame example_float_ops example_config example_tracker 0
      example_live_counter (example_tick [] 110)) = None" by blast
  from t3 v l have 3: "completions (fst (run example_float_ops example_config example_tracker 0
       example_counter
       (example_visit @ [example_tick [] 110, example_tick [] 132, example_tick [] 200]))) = 1"
    by simp
  from f 1 2 3 show ?thesis unfolding example_absences_spec by blast
qed

text \<open>
  Claim C2. A call constructs a session (the counter had none before the call and has
  one after it) exactly when the counter had no session and the tick holds a detection of
  the vehicle class. The session constructed carries the gate of the counter and the
  clock reading of the call; a session that was present before the call and is present
  after it keeps its gate and start time. A run without any vehicle detection, from a new
  counter, returns nothing on every call, has no effect and leaves the counter as it was.
\<close>

theorem visit_created_iff_vehicle_and_no_session:
  "(session bc = None \<and> session (snd (snd (process_frame ops cfg upd fresh bc t))) \<noteq> None
      \<longleftrightarrow> session bc = None \<and> (\<exists>d \<in> set (detections t). class_id d = CLASS_VEHICLE)) \<and>
   (session bc = None \<longrightarrow>
      session (snd (snd (process_frame ops cfg upd fresh bc t))) = Some s' \<longrightarrow>
        started_at s' = env_clock t \<and> gate_id s' = counter_gate_id bc) \<and>
   (session bc = Some s \<longrightarrow>
      session (snd (snd (process_frame ops cfg upd fresh bc t))) = Some s' \<longrightarrow>
        started_at s' = started_at s \<and> gate_id s' = gate_id s) \<and>
   ((\<forall>t \<in> set ts. \<not> (\<exists>d \<in> set (detections t). class_id d = CLASS_VEHICLE)) \<longrightarrow>
      run ops cfg upd fresh (new_counter fresh g) ts =
        (replicate (length ts) None, [], new_counter fresh g))"
proof -
  let ?bc' = "snd (snd (process_frame ops cfg upd fresh bc t))"
  have a: "session bc = None \<and> session ?bc' \<noteq> None
      \<longleftrightarrow> session bc = None \<and> (\<exists>d \<in> set (detections t). class_id d = CLASS_VEHICLE)"
    using session_after[of ops cfg upd fresh bc t] vehicles_of_nonempty[of t]
    by (auto simp: finalizing_tick_def)
  have b: "started_at s' = env_clock t \<and> gate_id s' = counter_gate_id bc"
    if n: "session bc = None" and s': "session ?bc' = Some s'"
  proof (cases "vehicles_of t")
    case Nil
    with n s' show ?thesis by (simp add: process_frame_idle)
  next
    case (Cons v vs)
    from s' have "session (snd (record_and_count upd bc
        (Some (fst (vehicle_present ops cfg bc t v vs))) t)) = Some s'"
      by (simp add: process_frame_vehicle[OF Cons])
    from record_and_count_keeps[OF this] vehicle_present_new[OF n, of ops cfg t v vs]
    show ?thesis by simp
  qed
  have c: "started_at s' = started_at s \<and> gate_id s' = gate_id s"
    if s: "session bc = Some s" and s': "session ?bc' = Some s'"
  proof (cases "vehicles_of t")
    case Nil
    show ?thesis
    proof (cases "finalizing_tick ops cfg bc t")
      case True
      from s' show ?thesis by (simp add: process_frame_finalizing[OF True s])
    next
      case False
      from s' have "session (snd (record_and_count upd bc (Some s) t)) = Some s'"
        by (simp add: process_frame_waiting[OF Nil s False])
      from record_and_count_keeps[OF this] show ?thesis .
    qed
  next
    case (Cons v vs)
    from s' have "session (snd (record_and_count upd bc
        (Some (fst (vehicle_present ops cfg bc t v vs))) t)) = Some s'"
      by (simp add: process_frame_vehicle[OF Cons])
    from record_and_count_keeps[OF this] show ?thesis
      by (simp add: vehicle_present_old[OF s])
  qed
  have d: "run ops cfg upd fresh (new_counter fresh g) ts =
        (replicate (length ts) None, [], new_counter fresh g)"
    if "\<forall>t \<in> set ts. \<not> (\<exists>d \<in> set (detections t). class_id d = CLASS_VEHICLE)"
  proof -
    from that have "\<forall>t \<in> set ts. vehicles_of t = []"
      using vehicles_of_nonempty by blast
    then show ?thesis by (rule run_idle) (simp add: new_counter_def)
  qed
  from a b c d show ?thesis by blast
qed

theorem visit_created_iff_vehicle_and_no_session_witness:
  "session example_counter = None \<and>
   session (snd (snd (process_frame example_float_ops example_config example_tracker 0 example_counter
      (example_tick [example_vehicle (1 / 2)] 100)))) \<noteq> None \<and>
   session (snd (snd (process_frame example_float_ops example_config example_tracker 0 example_counter
      (example_tick [example_bag 1] 100)))) = None \<and>
   run example_float_ops example_config example_tracker 0 (new_counter 0 ''gate1'')
       [example_tick [] 1, example_tick [example_bag 1, example_cluster 5] 2] =
     ([None, None], [], new_counter 0 ''gate1'')"
proof -
  have h1: "session example_counter = None"
    by (simp add: example_defs)
  have h2: "\<exists>d \<in> set (detections (example_tick [example_vehicle (1 / 2)] 100)).
      class_id d = CLASS_VEHICLE"
    by (simp add: example_defs)
  have h3: "\<not> (\<exists>d \<in> set (detections (example_tick [example_bag 1] 100)).
      class_id d = CLASS_VEHICLE)"
    by (simp add: example_defs)
  have h4: "\<forall>t \<in> set [example_tick [] 1, example_tick [example_bag 1, example_cluster 5] 2].
      \<not> (\<exists>d \<in> set (detections t). class_id d = CLASS_VEHICLE)"
    by (simp add: example_defs)
  note a = visit_created_iff_vehicle_and_no_session[where bc = example_counter
      and cfg = example_config and upd = example_tracker and fresh = 0
      and t = "example_tick [example_vehicle (1 / 2)] 100"
      and ts = "[example_tick [] 1, example_tick [example_bag 1, example_cluster 5] 2]"
      and g = "''gate1''"]
  note b = visit_created_iff_vehicle_and_no_session[where bc = example_counter
      and cfg = example_config and upd = example_tracker and fresh = 0
      and t = "example_tick [example_bag 1] 100" and ts = "[]" and g = "''gate1''"]
  from a b h1 h2 h3 h4 show ?thesis by simp
qed

text \<open>
  Claim C9. On a finalizing call the dictionary returned carries the bag count, cluster
  count, peak and frame total of the session as they were before the call. The only
  effect is the release of the video writer, if there is one: the tracker is not
  called and no frame is written. The counter is left without a session and with a new
  tracker. The whole result is the same for any other detection list without a vehicle
  and any other frame.
\<close>

theorem finalizing_tick_incorporates_nothing:
  assumes "finalizing_tick ops cfg bc t" and "session bc = Some s"
  shows "(\<exists>d. fst (process_frame ops cfg upd fresh bc t) = Some d \<and>
            dict_bag_count d = bag_count s \<and>
            dict_bag_cluster_count d = bag_cluster_count s \<and>
            dict_peak_bags_in_frame d = peak_bags_in_frame s \<and>
            dict_total_frames d = total_frames s) \<and>
         fst (snd (process_frame ops cfg upd fresh bc t)) =
           (if video_writer s = None then [] else [ReleaseWriter]) \<and>
         tracked_ids (fst (snd (process_frame ops cfg upd fresh bc t))) = {||} \<and>
         frames_written (fst (snd (process_frame ops cfg upd fresh bc t))) = [] \<and>
         snd (snd (process_frame ops cfg upd fresh bc t)) = bc\<lparr>session := None, tracker := fresh\<rparr> \<and>
         (vehicles_of (t\<lparr>detections := ds\<rparr>) = [] \<longrightarrow>
            process_frame ops cfg upd fresh bc (t\<lparr>detections := ds, tick_frame := fr\<rparr>) =
              process_frame ops cfg upd fresh bc t)"
proof -
  note p = process_frame_finalizing[OF assms, of upd fresh]
  have d: "\<exists>d. fst (process_frame ops cfg upd fresh bc t) = Some d \<and>
            dict_bag_count d = bag_count s \<and>
            dict_bag_cluster_count d = bag_cluster_count s \<and>
            dict_peak_bags_in_frame d = peak_bags_in_frame s \<and>
            dict_total_frames d = total_frames s"
    unfolding p by (simp add: to_dict_def bag_count_def stop_recording_fields)
  have e: "fst (snd (process_frame ops cfg upd fresh bc t)) =
           (if video_writer s = None then [] else [ReleaseWriter])"
    unfolding p by (simp add: stop_recording_effects)
  have i: "process_frame ops cfg upd fresh bc (t\<lparr>detections := ds, tick_frame := fr\<rparr>) =
              process_frame ops cfg upd fresh bc t"
    if v: "vehicles_of (t\<lparr>detections := ds\<rparr>) = []"
  proof -
    from v assms have "finalizing_tick ops cfg bc (t\<lparr>detections := ds, tick_frame := fr\<rparr>)"
      by (simp add: finalizing_tick_def vehicles_of_def)
    from process_frame_finalizing[OF this assms(2), of upd fresh] p show ?thesis by simp
  qed
  from d e i show ?thesis unfolding p by (auto simp: e)
qed

theorem finalizing_tick_incorporates_nothing_witness:
  "finalizing_tick example_float_ops example_config example_live_counter
     (example_tick [example_bag 7, example_cluster 1, example_cluster 2] 132) \<and>
   fst (process_frame example_float_ops example_config example_tracker 0 example_live_counter
     (example_tick [example_bag 7, example_cluster 1, example_cluster 2] 132)) =
     Some example_completed \<and>
   fst (snd (process_frame example_float_ops example_config example_tracker 0 example_live_counter
     (example_tick [example_bag 7, example_cluster 1, example_cluster 2] 132))) = [ReleaseWriter]"
proof -
  have f: "finalizing_tick example_float_ops example_config example_live_counter
     (example_tick [example_bag 7, example_cluster 1, example_cluster 2] 132)"
    by (simp add: example_defs)
  have v: "vehicles_of (example_tick [example_bag 7, example_cluster 1, example_cluster 2] 132
      \<lparr>detections := []\<rparr>) = []"
    by (simp add: vehicles_of_def)
  have e: "example_tick [example_bag 7, example_cluster 1, example_cluster 2] 132
      \<lparr>detections := [], tick_frame := tick_frame (example_tick [] 132)\<rparr> = example_tick [] 132"
    by (simp add: example_tick_def)
  have w: "video_writer example_live_session \<noteq> None"
    by (simp add: example_live_session_def)
  from finalizing_tick_incorporates_nothing[OF f example_live, of example_tracker 0 "[]"
      "tick_frame (example_tick [] 132)"] v e w f example_completed
  show ?thesis by simp
qed

text \<open>
  Claim C10, as amended. On a finalizing call the field \<open>duration_seconds\<close> of the
  dictionary is \<^verbatim>\<open>round(last_vehicle_seen - started_at, 1)\<close>, computed with the
  float operations of the code, and the field \<open>started_at\<close> is the start of the
  session. Over a visit (a run that starts without a session, has a vehicle in its first
  tick and returns no dictionary) followed by a finalizing call, \<open>started_at\<close> is the
  clock reading of the first call and \<open>last_vehicle_seen\<close> is the time of the last tick
  with a vehicle, so the duration is the rounded float difference of these two and the
  time of the finalizing call, and with it the wait for the timeout, has no part in it.
\<close>

theorem completed_duration_is_rounded_presence_interval:
  "(finalizing_tick ops cfg bc t \<longrightarrow> session bc = Some s \<longrightarrow>
      (\<exists>d. fst (process_frame ops cfg upd fresh bc t) = Some d \<and>
         dict_started_at d = started_at s \<and>
         dict_duration_seconds d =
           fround ops (fsub ops (last_vehicle_seen s) (started_at s)) 1)) \<and>
   (session bc = None \<longrightarrow> vehicles_of first \<noteq> [] \<longrightarrow>
      completions (fst (run ops cfg upd fresh bc (first # rest))) = 0 \<longrightarrow>
      finalizing_tick ops cfg (snd (snd (run ops cfg upd fresh bc (first # rest)))) final \<longrightarrow>
      (\<exists>d x. fst (process_frame ops cfg upd fresh
                 (snd (snd (run ops cfg upd fresh bc (first # rest)))) final) = Some d \<and>
         last_vehicle_time (first # rest) = Some x \<and>
         dict_started_at d = env_clock first \<and>
         dict_duration_seconds d = fround ops (fsub ops x (env_clock first)) 1))"
proof -
  have a: "\<exists>d. fst (process_frame ops cfg upd fresh bc t) = Some d \<and>
         dict_started_at d = started_at s \<and>
         dict_duration_seconds d =
           fround ops (fsub ops (last_vehicle_seen s) (started_at s)) 1"
    if f: "finalizing_tick ops cfg bc t" and s: "session bc = Some s" for bc :: "'a BagCounter" and t s
    unfolding process_frame_finalizing[OF f s]
    by (simp add: to_dict_def duration_seconds_def stop_recording_fields)
  have b: "\<exists>d x. fst (process_frame ops cfg upd fresh
                 (snd (snd (run ops cfg upd fresh bc (first # rest)))) final) = Some d \<and>
         last_vehicle_time (first # rest) = Some x \<and>
         dict_started_at d = env_clock first \<and>
         dict_duration_seconds d = fround ops (fsub ops x (env_clock first)) 1"
    if n: "session bc = None" and v: "vehicles_of first \<noteq> []"
      and c: "completions (fst (run ops cfg upd fresh bc (first # rest))) = 0"
      and f: "finalizing_tick ops cfg (snd (snd (run ops cfg upd fresh bc (first # rest)))) final"
  proof -
    from run_visit_times[OF n v c] obtain s' x where
      s': "session (snd (snd (run ops cfg upd fresh bc (first # rest)))) = Some s'"
      and r: "started_at s' = env_clock first" "last_vehicle_time (first # rest) = Some x"
        "last_vehicle_seen s' = x"
      by blast
    from a[OF f s'] r show ?thesis by auto
  qed
  from a b show ?thesis by blast
qed

theorem completed_duration_is_rounded_presence_interval_witness:
  "session example_counter = None \<and>
   completions (fst (run example_float_ops example_config example_tracker 0 example_counter
     example_visit)) = 0 \<and>
   finalizing_tick example_float_ops example_config example_live_counter (example_tick [] 132) \<and>
   last_vehicle_time example_visit = Some (3233 / 32) \<and>
   map_option dict_duration_seconds
     (fst (process_frame example_float_ops example_config example_tracker 0 example_live_counter
        (example_tick [] 132))) =
     Some (fround example_float_ops (fsub example_float_ops (3233 / 32) 100) 1)"
proof -
  let ?first = "example_tick [example_vehicle (1 / 2), example_bag 1, example_bag 2] 100"
  let ?rest = "[example_tick [example_vehicle (3 / 4), example_bag 2, example_bag 3] (201 / 2),
      example_tick [example_vehicle 1, example_bag 3, example_bag 4] (3233 / 32)]"
  have v: "example_visit = ?first # ?rest" by (simp add: example_visit_def)
  have h1: "session example_counter = None" by (simp add: example_defs)
  have h2: "vehicles_of ?first \<noteq> []" by (simp add: example_defs)
  have h3: "completions (fst (run example_float_ops example_config example_tracker 0
      example_counter (?first # ?rest))) = 0"
    by (simp add: example_defs completions_def)
  have f: "finalizing_tick example_float_ops example_config example_live_counter
      (example_tick [] 132)"
    by (simp add: example_defs)
  have lc: "snd (snd (run example_float_ops example_config example_tracker 0 example_counter
      (?first # ?rest))) = example_live_counter"
    unfolding v[symmetric] example_live_counter_def by (rule refl)
  have lt: "last_vehicle_time (?first # ?rest) = Some (3233 / 32)"
    by (simp add: example_defs)
  have ec: "env_clock ?first = 100" by (simp add: example_tick_def)
  note a = completed_duration_is_rounded_presence_interval[where ops = example_float_ops
      and cfg = example_config and upd = example_tracker and fresh = 0 and bc = example_counter
      and first = ?first and rest = ?rest and final = "example_tick [] 132"
      and t = "example_tick [] 132" and s = example_live_session]
  from a h1 h2 h3 f obtain d x where
    d: "fst (process_frame example_float_ops example_config example_tracker 0 example_live_counter
        (example_tick [] 132)) = Some d"
    and x: "last_vehicle_time (?first # ?rest) = Some x"
    and r: "dict_duration_seconds d = fround example_float_ops (fsub example_float_ops x 100) 1"
    unfolding lc ec by blast
  from x lt have "x = 3233 / 32" by simp
  with d r have "map_option dict_duration_seconds
     (fst (process_frame example_float_ops example_config example_tracker 0 example_live_counter
        (example_tick [] 132))) =
     Some (fround example_float_ops (fsub example_float_ops (3233 / 32) 100) 1)"
    by simp
  with h1 h3 f lt show ?thesis unfolding v[symmetric] by blast
qed

text \<open>
  The claim as it was stated fails: in the example the vehicle was last seen 1.03125
  seconds after the start of the session, the float difference is exactly that, and the
  dictionary reports a duration of 1.0.
\<close>

theorem completed_duration_counterexample:
  "map_option dict_duration_seconds
     (fst (process_frame example_float_ops example_config example_tracker 0 example_live_counter
        (example_tick [] 132))) = Some 1 \<and>
   map_option last_vehicle_seen (session example_live_counter) = Some (3233 / 32) \<and>
   map_option started_at (session example_live_counter) = Some 100 \<and>
   last_vehicle_time example_visit = Some (3233 / 32) \<and>
   fsub example_float_ops (3233 / 32) 100 = 33 / 32 \<and>
   (1 :: real) \<noteq> 33 / 32"
  by (simp add: example_defs)

text \<open>
  Claim C3. When a session is present before a call and a session is present after it,
  the set of bag identities has only grown: the old set is contained in the new one, the
  bag count has not decreased, and the new set is the old one together with the
  identities the tracker returned in this call. Over a visit, that is a run that starts
  without a session, has a vehicle in its first tick and returns no dictionary, the set
  at the end is exactly the set of identities the tracker returned during the run.
\<close>

theorem unique_bag_ids_grow_from_tracker:
  "(session bc = Some s \<longrightarrow>
      session (snd (snd (process_frame ops cfg upd fresh bc t))) = Some s' \<longrightarrow>
        unique_bag_ids s |\<subseteq>| unique_bag_ids s' \<and>
        bag_count s \<le> bag_count s' \<and>
        unique_bag_ids s' =
          unique_bag_ids s |\<union>| tracked_ids (fst (snd (process_frame ops cfg upd fresh bc t)))) \<and>
   (session bc = None \<longrightarrow> vehicles_of t \<noteq> [] \<longrightarrow>
      completions (fst (run ops cfg upd fresh bc (t # ts))) = 0 \<longrightarrow>
        (\<exists>s''. session (snd (snd (run ops cfg upd fresh bc (t # ts)))) = Some s'' \<and>
           unique_bag_ids s'' = tracked_ids (fst (snd (run ops cfg upd fresh bc (t # ts))))))"
proof -
  let ?p = "process_frame ops cfg upd fresh bc t"
  have a: "unique_bag_ids s |\<subseteq>| unique_bag_ids s' \<and> bag_count s \<le> bag_count s' \<and>
        unique_bag_ids s' = unique_bag_ids s |\<union>| tracked_ids (fst (snd ?p))"
    if s: "session bc = Some s" and s': "session (snd (snd ?p)) = Some s'"
  proof -
    have nf: "\<not> finalizing_tick ops cfg bc t"
    proof
      assume "finalizing_tick ops cfg bc t"
      from process_frame_finalizing[OF this s, of upd fresh] s' show False by simp
    qed
    from live_tick_ids[OF s nf, of upd fresh] s'
    have u: "unique_bag_ids s' = unique_bag_ids s |\<union>| tracked_ids (fst (snd ?p))" by simp
    then have sub: "unique_bag_ids s |\<subseteq>| unique_bag_ids s'" by simp
    from fcard_mono[OF sub] have "bag_count s \<le> bag_count s'" by (simp add: bag_count_def)
    with u sub show ?thesis by simp
  qed
  have b: "\<exists>s''. session (snd (snd (run ops cfg upd fresh bc (t # ts)))) = Some s'' \<and>
           unique_bag_ids s'' = tracked_ids (fst (snd (run ops cfg upd fresh bc (t # ts))))"
    if "session bc = None" "vehicles_of t \<noteq> []"
      "completions (fst (run ops cfg upd fresh bc (t # ts))) = 0"
    using run_visit[OF that] by blast
  from a b show ?thesis by blast
qed

theorem unique_bag_ids_grow_from_tracker_witness:
  "session example_live_counter = Some example_live_session \<and>
   map_option unique_bag_ids (session (snd (snd (process_frame example_float_ops example_config example_tracker 0
      example_live_counter (example_tick [example_bag 4, example_bag 5] 102))))) =
     Some (unique_bag_ids example_live_session |\<union>| {|4, 5|}) \<and>
   map_option unique_bag_ids
     (session (snd (snd (run example_float_ops example_config example_tracker 0 example_counter example_visit)))) =
     Some {|1, 2, 3, 4|}"
proof -
  let ?tk = "example_tick [example_bag 4, example_bag 5] 102"
  let ?p = "process_frame example_float_ops example_config example_tracker 0 example_live_counter ?tk"
  let ?first = "example_tick [example_vehicle (1 / 2), example_bag 1, example_bag 2] 100"
  let ?rest = "[example_tick [example_vehicle (3 / 4), example_bag 2, example_bag 3] (201 / 2),
      example_tick [example_vehicle 1, example_bag 3, example_bag 4] (3233 / 32)]"
  have v: "example_visit = ?first # ?rest" by (simp add: example_visit_def)
  have e: "tracked_ids (fst (snd ?p)) = {|4, 5|}"
    by (simp add: example_defs)
  obtain s' where s': "session (snd (snd ?p)) = Some s'"
    by (simp add: example_defs)
  have h1: "session example_counter = None" by (simp add: example_defs)
  have h2: "vehicles_of ?first \<noteq> []" by (simp add: example_defs)
  have h3: "completions (fst (run example_float_ops example_config example_tracker 0 example_counter (?first # ?rest))) = 0"
    by (simp add: example_defs completions_def)
  note a = unique_bag_ids_grow_from_tracker[where bc = example_live_counter
      and s = example_live_session and s' = s' and cfg = example_config
      and upd = example_tracker and fresh = 0 and t = ?tk and ts = "[]"]
  note b = unique_bag_ids_grow_from_tracker[where bc = example_counter
      and s = example_live_session and s' = s' and cfg = example_config
      and upd = example_tracker and fresh = 0 and t = ?first and ts = ?rest]
  from a have "session example_live_counter = Some example_live_session \<longrightarrow>
      session (snd (snd ?p)) = Some s' \<longrightarrow>
      unique_bag_ids s' = unique_bag_ids example_live_session |\<union>| tracked_ids (fst (snd ?p))"
    by blast
  with example_live s' have "unique_bag_ids s' =
      unique_bag_ids example_live_session |\<union>| tracked_ids (fst (snd ?p))"
    by blast
  then have 1: "map_option unique_bag_ids (session (snd (snd ?p))) =
      Some (unique_bag_ids example_live_session |\<union>| {|4, 5|})"
    unfolding e s' by simp
  from b have "session example_counter = None \<longrightarrow> vehicles_of ?first \<noteq> [] \<longrightarrow>
      completions (fst (run example_float_ops example_config example_tracker 0 example_counter (?first # ?rest))) = 0 \<longrightarrow>
        (\<exists>s''. session (snd (snd (run example_float_ops example_config example_tracker 0 example_counter
             (?first # ?rest)))) = Some s'' \<and>
           unique_bag_ids s'' = tracked_ids (fst (snd (run example_float_ops example_config example_tracker 0
             example_counter (?first # ?rest)))))"
    by blast
  with h1 h2 h3 obtain s'' where
    "session (snd (snd (run example_float_ops example_config example_tracker 0 example_counter (?first # ?rest)))) =
       Some s''"
    "unique_bag_ids s'' = tracked_ids (fst (snd (run example_float_ops example_config example_tracker 0
             example_counter (?first # ?rest))))"
    by blast
  then have 2: "map_option unique_bag_ids
     (session (snd (snd (run example_float_ops example_config example_tracker 0 example_counter example_visit)))) =
     Some {|1, 2, 3, 4|}"
    unfolding v[symmetric] example_visit_ids by simp
  from example_live 1 2 show ?thesis by blast
qed

text \<open>
  Claim C4. Over a visit (a run that starts without a session, has a vehicle
  in its first tick and returns no dictionary) the cluster count of the session at the
  end is the largest number of cluster detections in a single tick of the run, and zero
  if there were none. It is a high-water mark and not a running sum: it is never more
  than the sum of the per-tick numbers, and it is smaller than that sum as soon as two
  ticks of the run had cluster detections.
\<close>

theorem cluster_count_is_maximum:
  assumes "session bc = None" and "vehicles_of t \<noteq> []"
    and "completions (fst (run ops cfg upd fresh bc (t # ts))) = 0"
  shows "\<exists>s'. session (snd (snd (run ops cfg upd fresh bc (t # ts)))) = Some s' \<and>
     bag_cluster_count s' = Max (set (0 # cluster_counts (t # ts))) \<and>
     bag_cluster_count s' \<le> sum_list (cluster_counts (t # ts)) \<and>
     (bag_cluster_count s' = sum_list (cluster_counts (t # ts)) \<longleftrightarrow>
        length (filter (\<lambda>c. c \<noteq> 0) (cluster_counts (t # ts))) \<le> 1)"
proof -
  from run_visit[OF assms] obtain s' where
    s': "session (snd (snd (run ops cfg upd fresh bc (t # ts)))) = Some s'"
    and c: "bag_cluster_count s' = fold max (cluster_counts (t # ts)) 0"
    by blast
  note nn = cluster_counts_nonneg[of "t # ts"]
  have m: "fold max (cluster_counts (t # ts)) 0 = Max (set (0 # cluster_counts (t # ts)))"
    by (simp only: Max.set_eq_fold)
  from fold_max_bounds[OF nn] fold_max_eq_sum[OF nn] s' c m show ?thesis by simp
qed

theorem cluster_count_is_maximum_witness:
  "cluster_counts example_cluster_visit = [2, 5, 3, 1] \<and>
   map_option bag_cluster_count
     (session (snd (snd (run example_float_ops example_config example_tracker 0 example_counter
        example_cluster_visit)))) = Some 5"
proof -
  let ?first = "example_tick (example_vehicle (1 / 2) # map example_cluster [1, 2]) 100"
  let ?rest = "[example_tick (map example_cluster [1, 2, 3, 4, 5]) 101,
      example_tick (example_vehicle (1 / 2) # map example_cluster [1, 2, 3]) 102,
      example_tick [example_cluster 1] 103]"
  have v: "example_cluster_visit = ?first # ?rest" by (simp add: example_cluster_visit_def)
  have h1: "session example_counter = None" by (simp add: example_defs)
  have h2: "vehicles_of ?first \<noteq> []" by (simp add: example_defs)
  have h3: "completions (fst (run example_float_ops example_config example_tracker 0 example_counter
      (?first # ?rest))) = 0"
    by (simp add: example_defs completions_def)
  from cluster_count_is_maximum[OF h1 h2 h3] obtain s' where
    "session (snd (snd (run example_float_ops example_config example_tracker 0 example_counter
        (?first # ?rest)))) = Some s'"
    "bag_cluster_count s' = Max (set (0 # cluster_counts (?first # ?rest)))"
    by blast
  then have "map_option bag_cluster_count
     (session (snd (snd (run example_float_ops example_config example_tracker 0 example_counter
        example_cluster_visit)))) = Some (Max (set (0 # cluster_counts example_cluster_visit)))"
    unfolding v[symmetric] by simp
  then show ?thesis unfolding example_cluster_counts by simp
qed

text \<open>
  Claim C5, as amended. In a call that finds a session and does not finalize it, the
  frame, if one was passed, is written exactly when the session has a video writer that
  is open; the tracker is called exactly when the tick has a bag detection, and then the
  frame total grows by one; the identities returned by the tracker are added; the peak
  becomes the larger of itself and the number of bag detections and the cluster count the
  larger of itself and the number of cluster detections. In a call that constructs the
  session the same counts start from zero, and the frame is written when the new writer
  opened.
\<close>

theorem live_tick_updates_session:
  "(session bc = Some s \<longrightarrow> \<not> finalizing_tick ops cfg bc t \<longrightarrow> counts_nonneg s \<longrightarrow>
      (\<exists>s'. session (snd (snd (process_frame ops cfg upd fresh bc t))) = Some s' \<and>
         total_frames s' = total_frames s + (if bags_of t = [] then 0 else 1) \<and>
         unique_bag_ids s' =
           unique_bag_ids s |\<union>| tracked_ids (fst (snd (process_frame ops cfg upd fresh bc t))) \<and>
         peak_bags_in_frame s' = max (peak_bags_in_frame s) (int (length (bags_of t))) \<and>
         bag_cluster_count s' = max (bag_cluster_count s) (int (length (clusters_of t))) \<and>
         counts_nonneg s') \<and>
      fst (snd (process_frame ops cfg upd fresh bc t)) =
        (case tick_frame t of
           None \<Rightarrow> []
         | Some f \<Rightarrow>
             if (case video_writer s of None \<Rightarrow> False | Some vw \<Rightarrow> isOpened vw)
             then [WriteFrame f] else []) @
        (if bags_of t = [] then []
         else [TrackerUpdate (to_sv (bags_of t)) (snd (upd (tracker bc) (to_sv (bags_of t))))])) \<and>
   (session bc = None \<longrightarrow> vehicles_of t \<noteq> [] \<longrightarrow>
      (\<exists>s'. session (snd (snd (process_frame ops cfg upd fresh bc t))) = Some s' \<and>
         total_frames s' = (if bags_of t = [] then 0 else 1) \<and>
         unique_bag_ids s' = tracked_ids (fst (snd (process_frame ops cfg upd fresh bc t))) \<and>
         peak_bags_in_frame s' = int (length (bags_of t)) \<and>
         bag_cluster_count s' = int (length (clusters_of t)) \<and>
         counts_nonneg s') \<and>
      frames_written (fst (snd (process_frame ops cfg upd fresh bc t))) =
        (case tick_frame t of None \<Rightarrow> [] | Some f \<Rightarrow> if env_writer_opens t then [f] else []))"
proof -
  have b: "(\<exists>s'. session (snd (snd (process_frame ops cfg upd fresh bc t))) = Some s' \<and>
         total_frames s' = (if bags_of t = [] then 0 else 1) \<and>
         unique_bag_ids s' = tracked_ids (fst (snd (process_frame ops cfg upd fresh bc t))) \<and>
         peak_bags_in_frame s' = int (length (bags_of t)) \<and>
         bag_cluster_count s' = int (length (clusters_of t)) \<and>
         counts_nonneg s')"
    if n: "session bc = None" and v: "vehicles_of t \<noteq> []"
  proof -
    from creation_tick[OF n v, of ops cfg upd fresh] obtain s' where
      s': "session (snd (snd (process_frame ops cfg upd fresh bc t))) = Some s'"
      and r: "unique_bag_ids s' = tracked_ids (fst (snd (process_frame ops cfg upd fresh bc t)))"
         "bag_cluster_count s' = int (length (clusters_of t))" "counts_nonneg s'"
      by blast
    from creation_tick_counters[OF n v s'] s' r show ?thesis by blast
  qed
  from live_tick_update[of bc s ops cfg t upd fresh] live_tick_effects[of bc s ops cfg t upd fresh]
    b creation_tick_effects[of bc t ops cfg upd fresh]
  show ?thesis by blast
qed

theorem live_tick_updates_session_witness:
  "session example_live_counter = Some example_live_session \<and>
   \<not> finalizing_tick example_float_ops example_config example_live_counter
       (example_tick [example_bag 4, example_bag 5, example_bag 6, example_cluster 1] 102) \<and>
   counts_nonneg example_live_session \<and>
   map_option total_frames
     (session (snd (snd (process_frame example_float_ops example_config example_tracker 0 example_live_counter
        (example_tick [example_bag 4, example_bag 5, example_bag 6, example_cluster 1] 102))))) =
     Some 4 \<and>
   map_option peak_bags_in_frame
     (session (snd (snd (process_frame example_float_ops example_config example_tracker 0 example_live_counter
        (example_tick [example_bag 4, example_bag 5, example_bag 6, example_cluster 1] 102))))) =
     Some 3 \<and>
   map_option bag_cluster_count
     (session (snd (snd (process_frame example_float_ops example_config example_tracker 0 example_live_counter
        (example_tick [example_bag 4, example_bag 5, example_bag 6, example_cluster 1] 102))))) =
     Some 1 \<and>
   map_option total_frames
     (session (snd (snd (process_frame example_float_ops example_config example_tracker 0 example_counter
        (example_tick [example_vehicle (1 / 2)] 100))))) = Some 0"
proof -
  let ?tk = "example_tick [example_bag 4, example_bag 5, example_bag 6, example_cluster 1] 102"
  let ?first = "example_tick [example_vehicle (1 / 2)] 100"
  have nf: "\<not> finalizing_tick example_float_ops example_config example_live_counter ?tk"
    by (simp add: example_defs)
  have ok: "counts_nonneg example_live_session"
    by (simp add: counts_nonneg_def example_live_session_def)
  have b: "bags_of ?tk \<noteq> []" "int (length (bags_of ?tk)) = 3" "int (length (clusters_of ?tk)) = 1"
    by (simp_all add: example_defs)
  have h1: "session example_counter = None" by (simp add: example_defs)
  have h2: "vehicles_of ?first \<noteq> []" "bags_of ?first = []" by (simp_all add: example_defs)
  note a = live_tick_updates_session[where bc = example_live_counter
      and s = example_live_session and cfg = example_config
      and upd = example_tracker and fresh = 0 and t = ?tk]
  note c = live_tick_updates_session[where bc = example_counter
      and s = example_live_session and cfg = example_config
      and upd = example_tracker and fresh = 0 and t = ?first]
  from a example_live nf ok obtain s' where
    s': "session (snd (snd (process_frame example_float_ops example_config example_tracker 0 example_live_counter
        ?tk))) = Some s'"
    and "total_frames s' = total_frames example_live_session + (if bags_of ?tk = [] then 0 else 1)"
    and "peak_bags_in_frame s' =
      max (peak_bags_in_frame example_live_session) (int (length (bags_of ?tk)))"
    and "bag_cluster_count s' =
      max (bag_cluster_count example_live_session) (int (length (clusters_of ?tk)))"
    by blast
  then have 1: "total_frames s' = 4" "peak_bags_in_frame s' = 3" "bag_cluster_count s' = 1"
    unfolding b by (simp_all add: b example_live_session_def)
  from c h1 h2(1) obtain s'' where
    s'': "session (snd (snd (process_frame example_float_ops example_config example_tracker 0 example_counter
        ?first))) = Some s''"
    and "total_frames s'' = (if bags_of ?first = [] then 0 else 1)"
    by blast
  then have 2: "total_frames s'' = 0" by (simp add: h2)
  from example_live nf ok s' 1 s'' 2 show ?thesis by simp
qed

text \<open>
  The claim as it was stated fails: a tick with a vehicle and no bag, processed while the
  session is live, leaves the frame total at 3.
\<close>

theorem live_tick_counterexample:
  "\<not> finalizing_tick example_float_ops example_config example_live_counter
       (example_tick [example_vehicle (1 / 2)] 102) \<and>
   map_option total_frames (session example_live_counter) = Some 3 \<and>
   map_option total_frames
     (session (snd (snd (process_frame example_float_ops example_config example_tracker 0 example_live_counter
        (example_tick [example_vehicle (1 / 2)] 102))))) = Some 3"
  by (simp add: example_defs)

section \<open>Claims about reporting\<close>

text \<open>
  Claim C6. \<open>report_session\<close> issues no request exactly when the estimated total of
  the dictionary is below the configured minimum, and exactly one request otherwise. In a
  dictionary built by \<open>to_dict\<close> the estimated total is the bag count plus the cluster
  count, that is the number of tracked identities plus the cluster count of the session.
\<close>

theorem report_skipped_iff_below_minimum:
  "(fst (report_session cfg answer sess) = [] \<longleftrightarrow>
      dict_estimated_total sess < MIN_BAG_COUNT_TO_REPORT cfg) \<and>
   length (fst (report_session cfg answer sess)) =
     (if dict_estimated_total sess < MIN_BAG_COUNT_TO_REPORT cfg then 0 else 1) \<and>
   dict_estimated_total (to_dict ops s clk) =
     dict_bag_count (to_dict ops s clk) + dict_bag_cluster_count (to_dict ops s clk) \<and>
   dict_estimated_total (to_dict ops s clk) = int (fcard (unique_bag_ids s)) + bag_cluster_count s"
  by (simp add: report_session_def Let_def to_dict_def estimated_total_def bag_count_def
      split: post_result.splits)

theorem report_skipped_iff_below_minimum_witness:
  "fst (report_session example_config (Response 200 []) example_completed) \<noteq> [] \<and>
   length (fst (report_session example_config (Response 200 []) example_completed)) = 1 \<and>
   fst (report_session example_config (Response 200 [])
          (example_completed\<lparr>dict_estimated_total := 0\<rparr>)) = []"
proof -
  have a: "\<not> dict_estimated_total example_completed < MIN_BAG_COUNT_TO_REPORT example_config"
    by (simp add: example_completed_def example_config_def)
  have b: "dict_estimated_total (example_completed\<lparr>dict_estimated_total := 0\<rparr>)
      < MIN_BAG_COUNT_TO_REPORT example_config"
    by (simp add: example_config_def)
  from a b
    report_skipped_iff_below_minimum[of example_config "Response 200 []" example_completed]
    report_skipped_iff_below_minimum[of example_config "Response 200 []"
      "example_completed\<lparr>dict_estimated_total := 0\<rparr>"]
  show ?thesis by simp
qed

text \<open>
  Claim C8, as amended. When the report is not skipped, exactly one request is issued
  whatever the answer. A response with status 200 or 201 is logged as reported; a
  response with any other status, other codes of the 2xx range included, is logged as
  rejected with the first 200 characters of its body; a request exception is logged as
  failed.
\<close>

theorem report_classification:
  assumes "\<not> dict_estimated_total sess < MIN_BAG_COUNT_TO_REPORT cfg"
  shows "length (fst (report_session cfg answer sess)) = 1 \<and>
    snd (report_session cfg answer sess) =
      (case answer of
         Response status_code body \<Rightarrow>
           if status_code \<in> {200, 201}
           then [InfoReported (dict_gate_id sess) (dict_estimated_total sess)]
           else [ErrorRejected status_code (take 200 body)]
       | RequestException e \<Rightarrow> [ErrorFailed e])"
  using assms by (simp add: report_session_def Let_def split: post_result.splits)

theorem report_classification_witness:
  "snd (report_session example_config (Response 201 ''ok'') example_completed) =
     [InfoReported ''gate1'' 4] \<and>
   snd (report_session example_config (Response 500 ''no'') example_completed) =
     [ErrorRejected 500 ''no''] \<and>
   snd (report_session example_config (RequestException ''timeout'') example_completed) =
     [ErrorFailed ''timeout''] \<and>
   length (fst (report_session example_config (Response 500 ''no'') example_completed)) = 1"
proof -
  have a: "\<not> dict_estimated_total example_completed < MIN_BAG_COUNT_TO_REPORT example_config"
    by (simp add: example_completed_def example_config_def)
  from report_classification[OF a, of "Response 201 ''ok''"]
    report_classification[OF a, of "Response 500 ''no''"]
    report_classification[OF a, of "RequestException ''timeout''"]
  show ?thesis by (simp add: example_completed_def)
qed

text \<open>
  The claim as it was stated fails: a response with status 204 is logged as rejected.
\<close>

theorem report_classification_counterexample:
  "\<not> dict_estimated_total example_completed < MIN_BAG_COUNT_TO_REPORT example_config \<and>
   snd (report_session example_config (Response 204 []) example_completed) =
     [ErrorRejected 204 []]"
  by (simp add: report_session_def example_completed_def example_config_def)

section \<open>Claims about the camera loop\<close>

text \<open>
  Claim C7. Let the base delay be the 5 seconds set by the constructor, and let every
  pass of the outer loop run to its end. Then the delays slept after the failed opens
  are those of the design: min(5 k, 60) seconds after the k-th failure of a streak, where
  a streak starts at the value of the failure counter and starts again from zero after
  every successful open. After the passes the loop has not returned. The delay computed
  by the code equals the wording of section 4.1, the base delay times the failure count
  limited to twelve, capped at 60. From a new camera, \<open>n\<close> failed opens sleep
  min(5 k, 60) for k from 1 to \<open>n\<close> and nothing else, and the loop has not returned.
\<close>

theorem reconnect_delay_backoff:
  assumes "reconnect_delay cam = 5" and "target_fps cam \<noteq> 0"
    and "\<forall>ob \<in> set obs. complete_pass ops cam ob"
  shows "backoff_sleeps (fst (snd (read_loop ops cam obs))) =
           map of_int (streak_delays 5 60 (consecutive_failures cam) (open_outcomes obs)) \<and>
         snd (snd (read_loop ops cam obs)) = Looping \<and>
         streak_delays 5 60 0 (replicate n False) = map (\<lambda>k. min (5 * int k) 60) [1..<Suc n] \<and>
         (\<forall>j. spec_backoff 5 60 j = min (5 * j) 60) \<and>
         backoff_delay (cam\<lparr>consecutive_failures := k\<rparr>) = spec_backoff 5 60 k \<and>
         sleeps (fst (snd (read_loop ops (new_camera g u fps) (replicate n failed_open)))) =
           map (\<lambda>k. of_int (min (5 * int k) 60)) [1..<Suc n] \<and>
         snd (snd (read_loop ops (new_camera g u fps) (replicate n failed_open))) = Looping"
proof -
  have a: "spec_backoff 5 60 j = min (5 * j) 60" for j
    by (simp add: spec_backoff_def min_def)
  have b: "backoff_delay (cam\<lparr>consecutive_failures := k\<rparr>) = min (5 * k) 60"
    using assms(1) by (simp add: backoff_delay_def)
  have c: "sleeps (fst (snd (read_loop ops (new_camera g u fps) (replicate n failed_open)))) =
           map (\<lambda>k. of_int (min (5 * int k) 60)) [1..<Suc n]"
    unfolding read_loop_failures_sleeps by (simp add: new_camera_def)
  have d: "streak_delays 5 60 0 (replicate n False) = map (\<lambda>k. min (5 * int k) 60) [1..<Suc n]"
    unfolding streak_delays_failures by simp
  from read_loop_streaks[OF assms(2,3)] assms(1) a b c d
    read_loop_failures_status[of ops "new_camera g u fps" n]
  show ?thesis by simp
qed

theorem reconnect_delay_backoff_witness:
  "open_outcomes example_passes = [False, False, True, False] \<and>
   backoff_sleeps (fst (snd (read_loop example_float_ops
      (new_camera ''gate1'' ''rtsp://camera/stream'' 8) example_passes))) = [5, 10, 5] \<and>
   sleeps (fst (snd (read_loop example_float_ops
      (new_camera ''gate1'' ''rtsp://camera/stream'' 8) example_passes))) = [5, 10, 5, 5] \<and>
   sleeps (fst (snd (read_loop example_float_ops
      (new_camera ''gate1'' ''rtsp://camera/stream'' 8) (replicate 3 failed_open)))) =
     [5, 10, 15] \<and>
   sleeps (fst (snd (read_loop example_float_ops
      (new_camera ''gate1'' ''rtsp://camera/stream'' 8) (replicate 14 failed_open)))) =
     [5, 10, 15, 20, 25, 30, 35, 40, 45, 50, 55, 60, 60, 60]"
proof -
  let ?cam = "new_camera ''gate1'' ''rtsp://camera/stream'' 8"
  have h1: "reconnect_delay ?cam = 5" and h2: "target_fps ?cam \<noteq> 0"
    and cf: "consecutive_failures ?cam = 0"
    by (simp_all add: new_camera_def)
  have h3: "\<forall>ob \<in> set example_passes. complete_pass example_float_ops ?cam ob"
    by (simp add: example_passes_def complete_pass_def failed_open_def new_camera_def
        example_float_ops_def)
  have o: "open_outcomes example_passes = [False, False, True, False]"
    by (simp add: example_passes_def open_outcomes_def failed_open_def)
  have s: "sleeps (fst (snd (read_loop example_float_ops ?cam example_passes))) = [5, 10, 5, 5]"
    by (simp add: example_passes_def failed_open_def new_camera_def example_float_ops_def
        backoff_delay_def)
  have c: "[1..<Suc 3] = [1, 2, 3]" "[1..<Suc 14] = [1, 2, 3, 4, 5, 6, 7, 8, 9, 10, 11, 12, 13, 14]"
    by code_simp+
  note a = reconnect_delay_backoff[OF h1 h2 h3, where n = 3 and g = "''gate1''"
      and u = "''rtsp://camera/stream''" and fps = 8]
  note b = reconnect_delay_backoff[OF h1 h2 h3, where n = 14 and g = "''gate1''"
      and u = "''rtsp://camera/stream''" and fps = 8]
  from a have 1: "backoff_sleeps (fst (snd (read_loop example_float_ops ?cam example_passes))) =
      [5, 10, 5]"
    unfolding o cf by simp
  from a have 2: "sleeps (fst (snd (read_loop example_float_ops ?cam
      (replicate 3 failed_open)))) = [5, 10, 15]"
    unfolding c by simp
  from b have 3: "sleeps (fst (snd (read_loop example_float_ops ?cam
      (replicate 14 failed_open)))) = [5, 10, 15, 20, 25, 30, 35, 40, 45, 50, 55, 60, 60, 60]"
    unfolding c by simp
  from o s 1 2 3 show ?thesis by blast
qed

end
